theory Spec2Isabelle
  imports Complex_Main "HOL-Library.AList"
begin

section \<open>Strings of the runtime\<close>

text \<open>
  A string of the program is a sequence of UTF-16 code units; a code unit is modelled by
  its number. \<open>length\<close> is the \<open>.length\<close> of the source, and a literal of the source is
  written \<open>ustr ''...''\<close> when it is ASCII.
\<close>

type_synonym jsstring = "nat list"

definition ustr :: "string \<Rightarrow> jsstring" where
  "ustr s = map of_char s"

text \<open>
  The character classes of the regular expressions and of \<open>trim\<close>: \<open>\s\<close> and \<open>trim\<close> share
  the set of white space and line terminators of the language; \<open>.\<close> matches everything but
  a line terminator.
\<close>

definition isWhiteSpace :: "nat \<Rightarrow> bool" where
  "isWhiteSpace c =
     (c = 0x09 \<or> c = 0x0A \<or> c = 0x0B \<or> c = 0x0C \<or> c = 0x0D \<or> c = 0x20 \<or> c = 0xA0
      \<or> c = 0x1680 \<or> (0x2000 \<le> c \<and> c \<le> 0x200A) \<or> c = 0x2028 \<or> c = 0x2029
      \<or> c = 0x202F \<or> c = 0x205F \<or> c = 0x3000 \<or> c = 0xFEFF)"

definition isLineTerminator :: "nat \<Rightarrow> bool" where
  "isLineTerminator c = (c = 0x0A \<or> c = 0x0D \<or> c = 0x2028 \<or> c = 0x2029)"

definition isLowerAlnum :: "nat \<Rightarrow> bool" where
  "isLowerAlnum c = ((0x61 \<le> c \<and> c \<le> 0x7A) \<or> (0x30 \<le> c \<and> c \<le> 0x39))"

definition notLowerAlnum :: "nat \<Rightarrow> bool" where
  "notLowerAlnum c = (\<not> isLowerAlnum c)"

definition isCombiningMark :: "nat \<Rightarrow> bool" where
  "isCombiningMark c = (0x300 \<le> c \<and> c \<le> 0x36F)"

definition notCombiningMark :: "nat \<Rightarrow> bool" where
  "notCombiningMark c = (\<not> isCombiningMark c)"

text \<open>\<open>s.trim()\<close>: white space is removed at both ends.\<close>

definition trimEnd :: "jsstring \<Rightarrow> jsstring" where
  "trimEnd s = rev (dropWhile isWhiteSpace (rev s))"

definition js_trim :: "jsstring \<Rightarrow> jsstring" where
  "js_trim s = trimEnd (dropWhile isWhiteSpace s)"

text \<open>
  \<open>s.replace(/[class]+/g, r)\<close>: scanning from the left, every maximal run of characters
  of the class is replaced by one copy of \<open>r\<close>.
\<close>

function replaceRuns :: "(nat \<Rightarrow> bool) \<Rightarrow> jsstring \<Rightarrow> jsstring \<Rightarrow> jsstring" where
  "replaceRuns p r [] = []"
| "replaceRuns p r (c # cs) =
     (if p c then r @ replaceRuns p r (dropWhile p cs) else c # replaceRuns p r cs)"
  by pat_completeness auto
termination
  by (relation "measure (\<lambda>(p, r, s). length s)") (auto simp: le_imp_less_Suc length_dropWhile_le)

text \<open>
  \<open>s.replace(/\(.*?\)/g, "")\<close>: at an opening parenthesis the lazy \<open>.*?\<close> runs to the
  first closing parenthesis, which must come before any line terminator; the match is
  deleted and scanning goes on behind it. Where no match starts, the character is kept.
\<close>

fun closeParen :: "jsstring \<Rightarrow> jsstring option" where
  "closeParen [] = None"
| "closeParen (d # ds) =
     (if d = 0x29 then Some ds else if isLineTerminator d then None else closeParen ds)"

function stripParens :: "jsstring \<Rightarrow> jsstring" where
  "stripParens [] = []"
| "stripParens (c # cs) =
     (if c = 0x28
      then (case closeParen cs of Some rest \<Rightarrow> stripParens rest | None \<Rightarrow> c # stripParens cs)
      else c # stripParens cs)"
  by pat_completeness auto
termination
proof (relation "measure length")
  show "wf (measure length)" by simp
next
  fix c :: nat and cs rest :: jsstring
  assume "closeParen cs = Some rest"
  then have "length rest < Suc (length cs)"
    by (induction cs) (auto split: if_splits)
  then show "(rest, c # cs) \<in> measure length" by simp
next
  fix c :: nat and cs :: jsstring
  show "(cs, c # cs) \<in> measure length" by simp
next
  fix c :: nat and cs :: jsstring
  show "(cs, c # cs) \<in> measure length" by simp
qed

text \<open>\<open>s.includes(t)\<close>: \<open>t\<close> occurs in \<open>s\<close> as a contiguous run of code units.\<close>

fun startsWith :: "jsstring \<Rightarrow> jsstring \<Rightarrow> bool" where
  "startsWith s [] = True"
| "startsWith [] (d # ds) = False"
| "startsWith (c # cs) (d # ds) = (c = d \<and> startsWith cs ds)"

fun js_includes :: "jsstring \<Rightarrow> jsstring \<Rightarrow> bool" where
  "js_includes [] t = (t = [])"
| "js_includes (c # cs) t = (startsWith (c # cs) t \<or> js_includes cs t)"

text \<open>
  \<open>s.split(sep)\<close> for a separator of one code unit: the pieces between the separators,
  empty pieces included; the empty string gives one empty piece.
\<close>

fun js_split :: "nat \<Rightarrow> jsstring \<Rightarrow> jsstring list" where
  "js_split sep [] = [[]]"
| "js_split sep (c # cs) =
     (if c = sep then [] # js_split sep cs
      else (case js_split sep cs of [] \<Rightarrow> [[c]] | p # ps \<Rightarrow> (c # p) # ps))"

text \<open>A \<open>Set\<close> of strings keeps the order of first insertion.\<close>

definition setAdd :: "jsstring list \<Rightarrow> jsstring \<Rightarrow> jsstring list" where
  "setAdd ks k = (if k \<in> set ks then ks else ks @ [k])"

definition nonEmpty :: "jsstring \<Rightarrow> bool" where
  "nonEmpty k = (0 < length k)"

subsection \<open>The Unicode tables of the runtime\<close>

text \<open>
  \<open>normalize("NFKD")\<close> and \<open>toLowerCase()\<close> are computed by the runtime from the Unicode
  tables, which are no part of the program. They are parameters of the model. What the
  proofs use of them is \<open>unicode_ok\<close>: on a string of ASCII code units, decomposition
  changes nothing and lower-casing maps \<open>A\<close>..\<open>Z\<close> to \<open>a\<close>..\<open>z\<close>, unit by unit.
\<close>

record unicode =
  nfkd :: "jsstring \<Rightarrow> jsstring"
  toLowerCase :: "jsstring \<Rightarrow> jsstring"

definition asciiLower :: "nat \<Rightarrow> nat" where
  "asciiLower c = (if 0x41 \<le> c \<and> c \<le> 0x5A then c + 0x20 else c)"

definition isAscii :: "nat \<Rightarrow> bool" where
  "isAscii c = (c < 0x80)"

definition unicode_ok :: "unicode \<Rightarrow> bool" where
  "unicode_ok U =
     (\<forall>s. list_all isAscii s \<longrightarrow> nfkd U s = s \<and> toLowerCase U s = map asciiLower s)"

text \<open>
  An instance for running the model: the decompositions of a few accented Latin letters
  and the lower-casing of Basic Latin and Latin-1, one code unit at a time.
\<close>

definition decomposeUnit :: "nat \<Rightarrow> jsstring" where
  "decomposeUnit c =
     (if c = 0xC9 then [0x45, 0x301] else if c = 0xE9 then [0x65, 0x301]
      else if c = 0xC8 then [0x45, 0x300] else if c = 0xE8 then [0x65, 0x300]
      else if c = 0xC1 then [0x41, 0x301] else if c = 0xE1 then [0x61, 0x301]
      else if c = 0xD1 then [0x4E, 0x303] else if c = 0xF1 then [0x6E, 0x303]
      else if c = 0xA0 then [0x20]
      else [c])"

definition lowerUnit :: "nat \<Rightarrow> nat" where
  "lowerUnit c =
     (if 0x41 \<le> c \<and> c \<le> 0x5A then c + 0x20
      else if 0xC0 \<le> c \<and> c \<le> 0xDE \<and> c \<noteq> 0xD7 then c + 0x20
      else c)"

definition latinUnicode :: unicode where
  "latinUnicode = \<lparr> nfkd = (\<lambda>s. concat (map decomposeUnit s)), toLowerCase = map lowerUnit \<rparr>"

section \<open>Normalizer\<close>

text \<open>
  \<open>normalizeKey\<close>: decompose, delete the combining marks U+0300..U+036F, lower-case,
  replace every run of characters outside \<open>a-z0-9\<close> by one space, trim, and replace every
  run of white space by one space. The empty string is returned as it is.
\<close>

definition normalizeKey :: "unicode \<Rightarrow> jsstring \<Rightarrow> jsstring" where
  "normalizeKey U v =
     (if v = [] then []
      else replaceRuns isWhiteSpace [0x20]
             (js_trim
               (replaceRuns notLowerAlnum [0x20]
                 (toLowerCase U (filter notCombiningMark (nfkd U v))))))"

section \<open>Data model\<close>

text \<open>
  \<open>PlannerMember\<close> of the authentication module; an optional field is an \<open>option\<close>. A
  string is truthy when it is present and not empty.
\<close>

record PlannerMember =
  id' :: jsstring
  displayName :: jsstring
  mail :: "jsstring option"
  userPrincipalName :: "jsstring option"
  givenName :: "jsstring option"
  surname :: "jsstring option"
  companyName :: "jsstring option"

definition truthy :: "jsstring option \<Rightarrow> bool" where
  "truthy x = (case x of None \<Rightarrow> False | Some s \<Rightarrow> s \<noteq> [])"

definition orEmpty :: "jsstring option \<Rightarrow> jsstring" where
  "orEmpty x = (case x of None \<Rightarrow> [] | Some s \<Rightarrow> s)"

text \<open>\<open>{ ...member, originalName, source }\<close>: a new object with the member's fields.\<close>

record AssigneeUser = PlannerMember +
  originalName :: jsstring
  source :: jsstring

definition spreadMember :: "PlannerMember \<Rightarrow> jsstring \<Rightarrow> AssigneeUser" where
  "spreadMember m assigneeName =
     \<lparr> id' = id' m, displayName = displayName m, mail = mail m,
       userPrincipalName = userPrincipalName m, givenName = givenName m,
       surname = surname m, companyName = companyName m,
       originalName = assigneeName, source = ustr ''planner-member'' \<rparr>"

record ParsedTask =
  title :: jsstring
  description :: "jsstring option"
  startDate :: "jsstring option"
  dueDate :: "jsstring option"
  assignee :: "jsstring option"
  assignees :: "jsstring list option"
  bucketName :: "jsstring option"
  status :: "jsstring option"

text \<open>
  \<open>bucketInfo\<close>: \<open>id\<close> and \<open>name\<close> are read from the matched object and are \<open>undefined\<close>
  (\<open>None\<close>) when that object has no such property.
\<close>

record BucketInfo =
  info_id :: "jsstring option"
  info_name :: "jsstring option"
  info_originalName :: jsstring
  info_exactMatch :: bool

record ProcessedTask = ParsedTask +
  assigneeUsers :: "AssigneeUser list option"
  assigneeLookupFailed :: "bool option"
  assigneeLookupFailedList :: "jsstring list option"
  assigneeCandidates :: "AssigneeUser list option"
  assigneeNeedsReview :: "bool option"
  bucketInfo :: "BucketInfo option"
  bucketLookupFailed :: "bool option"

text \<open>\<open>{ ...task }\<close> for a \<open>ParsedTask\<close>: a new object with the same fields and no other.\<close>

definition spreadTask :: "ParsedTask \<Rightarrow> ProcessedTask" where
  "spreadTask t =
     \<lparr> title = title t, description = description t, startDate = startDate t,
       dueDate = dueDate t, assignee = assignee t, assignees = assignees t,
       bucketName = bucketName t, status = status t,
       assigneeUsers = None, assigneeLookupFailed = None, assigneeLookupFailedList = None,
       assigneeCandidates = None, assigneeNeedsReview = None, bucketInfo = None,
       bucketLookupFailed = None \<rparr>"

section \<open>Alias key generator\<close>

definition sp :: jsstring where
  "sp = [0x20]"

text \<open>
  \<open>generateMemberKeys\<close>: five conditional additions to the set \<open>keys\<close>, one definition
  for each, then the empty keys are removed.
\<close>

definition addDisplayNameKey :: "unicode \<Rightarrow> PlannerMember \<Rightarrow> jsstring list \<Rightarrow> jsstring list" where
  "addDisplayNameKey U m ks =
     (if displayName m \<noteq> [] then setAdd ks (normalizeKey U (displayName m)) else ks)"

definition addNameKeys :: "unicode \<Rightarrow> PlannerMember \<Rightarrow> jsstring list \<Rightarrow> jsstring list" where
  "addNameKeys U m ks =
     (if truthy (givenName m) \<and> truthy (surname m)
      then setAdd (setAdd ks (normalizeKey U (orEmpty (givenName m) @ sp @ orEmpty (surname m))))
                  (normalizeKey U (orEmpty (surname m) @ sp @ orEmpty (givenName m)))
      else ks)"

definition addCompanyKeys :: "unicode \<Rightarrow> PlannerMember \<Rightarrow> jsstring list \<Rightarrow> jsstring list" where
  "addCompanyKeys U m ks =
     (if truthy (companyName m) \<and> truthy (givenName m) \<and> truthy (surname m)
      then setAdd
             (setAdd ks (normalizeKey U (orEmpty (givenName m) @ sp @ orEmpty (surname m) @ sp
                                          @ orEmpty (companyName m))))
             (normalizeKey U (orEmpty (surname m) @ sp @ orEmpty (givenName m) @ sp
                              @ orEmpty (companyName m)))
      else ks)"

definition addMailKey :: "unicode \<Rightarrow> PlannerMember \<Rightarrow> jsstring list \<Rightarrow> jsstring list" where
  "addMailKey U m ks =
     (if truthy (mail m) then setAdd ks (toLowerCase U (orEmpty (mail m))) else ks)"

definition addPrincipalKey :: "unicode \<Rightarrow> PlannerMember \<Rightarrow> jsstring list \<Rightarrow> jsstring list" where
  "addPrincipalKey U m ks =
     (if truthy (userPrincipalName m) then setAdd ks (toLowerCase U (orEmpty (userPrincipalName m)))
      else ks)"

definition generateMemberKeys :: "unicode \<Rightarrow> PlannerMember \<Rightarrow> jsstring list" where
  "generateMemberKeys U m =
     filter nonEmpty
       (addPrincipalKey U m (addMailKey U m (addCompanyKeys U m (addNameKeys U m
          (addDisplayNameKey U m [])))))"

text \<open>
  \<open>generateAssigneeKeys\<close>: keys and tokens of a raw name. The variable \<open>lower\<close> of the
  source is the trimmed name (it is not lower-cased). The additions to the set \<open>keys\<close>
  are again one definition each.
\<close>

record AssigneeKeys =
  keys :: "jsstring list"
  tokens :: "jsstring list"

definition commaToSpace :: "nat \<Rightarrow> nat" where
  "commaToSpace c = (if c = 0x2C then 0x20 else c)"

definition stripPart :: "jsstring \<Rightarrow> jsstring" where
  "stripPart part = js_trim (stripParens part)"

definition noParenOf :: "jsstring \<Rightarrow> jsstring" where
  "noParenOf lower = js_trim (stripParens lower)"

definition addNoParenKey :: "unicode \<Rightarrow> jsstring \<Rightarrow> jsstring list \<Rightarrow> jsstring list" where
  "addNoParenKey U lower ks =
     (if noParenOf lower \<noteq> lower then setAdd ks (normalizeKey U (noParenOf lower)) else ks)"

definition addEmailKey :: "unicode \<Rightarrow> jsstring \<Rightarrow> jsstring list \<Rightarrow> jsstring list" where
  "addEmailKey U lower ks =
     (if js_includes lower [0x40] then setAdd ks (toLowerCase U lower) else ks)"

text \<open>
  \<open>if (parts.length === 2)\<close>, with \<open>last = parts[0]\<close> and \<open>first = parts[1]\<close>.
\<close>

fun addSwappedKeys :: "unicode \<Rightarrow> jsstring list \<Rightarrow> jsstring list \<Rightarrow> jsstring list" where
  "addSwappedKeys U [lastPart, firstPart] ks =
     setAdd (setAdd ks (normalizeKey U (firstPart @ sp @ lastPart)))
            (normalizeKey U (lastPart @ sp @ firstPart))"
| "addSwappedKeys U parts ks = ks"

definition addCommaKeys :: "unicode \<Rightarrow> jsstring \<Rightarrow> jsstring list \<Rightarrow> jsstring list" where
  "addCommaKeys U lower ks =
     (if js_includes lower [0x2C]
      then addSwappedKeys U (map stripPart (js_split 0x2C lower)) ks
      else ks)"

definition assigneeTokens :: "unicode \<Rightarrow> jsstring \<Rightarrow> jsstring list" where
  "assigneeTokens U lower =
     filter nonEmpty (js_split 0x20 (normalizeKey U (map commaToSpace (noParenOf lower))))"

text \<open>
  \<open>if (tokens.length >= 2)\<close>, with \<open>first = tokens[0]\<close> and
  \<open>last = tokens[tokens.length - 1]\<close>.
\<close>

fun addTokenKeys :: "unicode \<Rightarrow> jsstring list \<Rightarrow> jsstring list \<Rightarrow> jsstring list" where
  "addTokenKeys U (firstTok # t # ts) ks =
     setAdd (setAdd ks (normalizeKey U (firstTok @ sp @ last (t # ts))))
            (normalizeKey U (last (t # ts) @ sp @ firstTok))"
| "addTokenKeys U toks ks = ks"

definition assigneeKeySet :: "unicode \<Rightarrow> jsstring \<Rightarrow> jsstring list" where
  "assigneeKeySet U lower =
     addTokenKeys U (assigneeTokens U lower)
       (addCommaKeys U lower (addEmailKey U lower (addNoParenKey U lower
          (setAdd [] (normalizeKey U lower)))))"

definition generateAssigneeKeys :: "unicode \<Rightarrow> jsstring \<Rightarrow> AssigneeKeys" where
  "generateAssigneeKeys U name =
     (let lower = js_trim name in
      if lower = [] then \<lparr> keys = [], tokens = [] \<rparr>
      else \<lparr> keys = filter nonEmpty (assigneeKeySet U lower), tokens = assigneeTokens U lower \<rparr>)"

section \<open>Roster index\<close>

record IndexEntry =
  member :: PlannerMember
  searchText :: jsstring

record MemberIndex =
  keyMap :: "jsstring \<rightharpoonup> PlannerMember list"
  entries :: "IndexEntry list"

text \<open>\<open>keyMap.get(key) || []\<close>, then \<open>push\<close> and \<open>set\<close>.\<close>

definition addKey :: "PlannerMember \<Rightarrow> jsstring \<Rightarrow> (jsstring \<rightharpoonup> PlannerMember list)
    \<Rightarrow> (jsstring \<rightharpoonup> PlannerMember list)" where
  "addKey m key km = km(key \<mapsto> (case km key of None \<Rightarrow> [] | Some existing \<Rightarrow> existing) @ [m])"

definition memberSearchText :: "unicode \<Rightarrow> PlannerMember \<Rightarrow> jsstring" where
  "memberSearchText U m =
     normalizeKey U
       (displayName m @ sp @ orEmpty (mail m) @ sp @ orEmpty (userPrincipalName m) @ sp
        @ orEmpty (givenName m) @ sp @ orEmpty (surname m) @ sp @ orEmpty (companyName m))"

definition addMember :: "unicode \<Rightarrow> PlannerMember \<Rightarrow> MemberIndex \<Rightarrow> MemberIndex" where
  "addMember U m idx =
     \<lparr> keyMap = fold (addKey m) (generateMemberKeys U m) (keyMap idx),
       entries = entries idx @ [\<lparr> member = m, searchText = memberSearchText U m \<rparr>] \<rparr>"

definition buildMemberIndex :: "unicode \<Rightarrow> PlannerMember list \<Rightarrow> MemberIndex" where
  "buildMemberIndex U members = fold (addMember U) members \<lparr> keyMap = Map.empty, entries = [] \<rparr>"

section \<open>Assignee matcher\<close>

text \<open>
  \<open>if (!matches.find((existing) => existing.id === member.id)) matches.push(member)\<close>
\<close>

definition sameId :: "PlannerMember \<Rightarrow> PlannerMember \<Rightarrow> bool" where
  "sameId m existing = (id' existing = id' m)"

definition pushUnique :: "PlannerMember \<Rightarrow> PlannerMember list \<Rightarrow> PlannerMember list" where
  "pushUnique m matches = (if list_ex (sameId m) matches then matches else matches @ [m])"

definition matchKey :: "MemberIndex \<Rightarrow> jsstring \<Rightarrow> PlannerMember list \<Rightarrow> PlannerMember list" where
  "matchKey index key matches =
     (case keyMap index key of
        None \<Rightarrow> matches
      | Some membersForKey \<Rightarrow> fold pushUnique membersForKey matches)"

definition qualifies :: "jsstring list \<Rightarrow> IndexEntry \<Rightarrow> bool" where
  "qualifies toks entry = list_all (js_includes (searchText entry)) toks"

definition matchEntry :: "jsstring list \<Rightarrow> IndexEntry \<Rightarrow> PlannerMember list \<Rightarrow> PlannerMember list" where
  "matchEntry toks entry matches =
     (if qualifies toks entry then pushUnique (member entry) matches else matches)"

definition findMemberMatches :: "unicode \<Rightarrow> jsstring \<Rightarrow> MemberIndex \<Rightarrow> PlannerMember list" where
  "findMemberMatches U name index =
     (let ak = generateAssigneeKeys U name;
          matches = fold (matchKey index) (keys ak) []
      in if matches \<noteq> [] then matches
         else if tokens ak = [] then matches
         else fold (matchEntry (tokens ak)) (entries index) matches)"

text \<open>
  The local function \<open>evaluateAssignee\<close> of \<open>lookupAssignees\<close>: one match, several
  matches, or none.
\<close>

record Evaluated =
  users :: "AssigneeUser list"
  candidates :: "AssigneeUser list"
  needsReview :: bool

fun evaluateMatches :: "jsstring \<Rightarrow> PlannerMember list \<Rightarrow> Evaluated" where
  "evaluateMatches assigneeName [] = \<lparr> users = [], candidates = [], needsReview = True \<rparr>"
| "evaluateMatches assigneeName [m] =
     \<lparr> users = [spreadMember m assigneeName], candidates = [], needsReview = False \<rparr>"
| "evaluateMatches assigneeName (m # m' # ms) =
     \<lparr> users = [],
       candidates = map (\<lambda>x. spreadMember x assigneeName) (m # m' # ms),
       needsReview = True \<rparr>"

definition evaluateAssignee :: "unicode \<Rightarrow> MemberIndex \<Rightarrow> jsstring \<Rightarrow> Evaluated" where
  "evaluateAssignee U memberIndex assigneeName =
     evaluateMatches assigneeName (findMemberMatches U assigneeName memberIndex)"

text \<open>
  The outcome of the specification, read off the result of \<open>evaluateAssignee\<close>: resolved
  when there are users, ambiguous when there are candidates, unresolved otherwise.
\<close>

datatype MatchOutcome = Resolved "AssigneeUser list" | Ambiguous "AssigneeUser list" | Unresolved

definition outcome :: "Evaluated \<Rightarrow> MatchOutcome" where
  "outcome r =
     (if users r \<noteq> [] then Resolved (users r)
      else if candidates r \<noteq> [] then Ambiguous (candidates r)
      else Unresolved)"

text \<open>The loop over \<open>task.assignees\<close> with its four accumulators.\<close>

record Merged =
  matchedUsers :: "AssigneeUser list"
  failed :: "jsstring list"
  mergedCandidates :: "AssigneeUser list"
  mergedNeedsReview :: bool

definition mergeStep :: "unicode \<Rightarrow> MemberIndex \<Rightarrow> jsstring \<Rightarrow> Merged \<Rightarrow> Merged" where
  "mergeStep U memberIndex assigneeName acc =
     (let result = evaluateAssignee U memberIndex assigneeName in
      \<lparr> matchedUsers = (if users result \<noteq> [] then matchedUsers acc @ users result
                        else matchedUsers acc),
        failed = (if users result \<noteq> [] then failed acc else failed acc @ [assigneeName]),
        mergedCandidates = (if candidates result \<noteq> [] then mergedCandidates acc @ candidates result
                            else mergedCandidates acc),
        mergedNeedsReview = (if needsReview result then True else mergedNeedsReview acc) \<rparr>)"

definition mergeAssignees :: "unicode \<Rightarrow> MemberIndex \<Rightarrow> jsstring list \<Rightarrow> Merged" where
  "mergeAssignees U memberIndex names =
     fold (mergeStep U memberIndex) names
       \<lparr> matchedUsers = [], failed = [], mergedCandidates = [], mergedNeedsReview = False \<rparr>"

definition someIfNonEmpty :: "'a list \<Rightarrow> 'a list option \<Rightarrow> 'a list option" where
  "someIfNonEmpty xs old = (if xs \<noteq> [] then Some xs else old)"

definition processAssignees :: "unicode \<Rightarrow> MemberIndex \<Rightarrow> ParsedTask \<Rightarrow> ProcessedTask" where
  "processAssignees U memberIndex task =
     (let processedTask = spreadTask task in
      if (case assignees task of None \<Rightarrow> False | Some names \<Rightarrow> names \<noteq> [])
      then
        let r = mergeAssignees U memberIndex (case assignees task of None \<Rightarrow> [] | Some names \<Rightarrow> names)
        in processedTask
             \<lparr> assigneeUsers := someIfNonEmpty (matchedUsers r) (assigneeUsers processedTask),
               assigneeLookupFailedList :=
                 someIfNonEmpty (failed r) (assigneeLookupFailedList processedTask),
               assigneeCandidates :=
                 someIfNonEmpty (mergedCandidates r) (assigneeCandidates processedTask),
               assigneeNeedsReview :=
                 (if mergedNeedsReview r then Some True else assigneeNeedsReview processedTask) \<rparr>
      else if truthy (assignee task)
      then
        let result = evaluateAssignee U memberIndex (orEmpty (assignee task)) in
        if users result \<noteq> [] then processedTask \<lparr> assigneeUsers := Some (users result) \<rparr>
        else processedTask
               \<lparr> assigneeLookupFailed := Some True,
                 assigneeCandidates :=
                   someIfNonEmpty (candidates result) (assigneeCandidates processedTask),
                 assigneeNeedsReview := Some True \<rparr>
      else processedTask)"

text \<open>
  \<open>lookupAssignees\<close>: the index is built once, then every task is processed in order and
  pushed. The parameters \<open>auth\<close> and \<open>accessToken\<close> are not used by the source.
\<close>

definition lookupAssignees :: "unicode \<Rightarrow> ParsedTask list \<Rightarrow> PlannerMember list \<Rightarrow> ProcessedTask list" where
  "lookupAssignees U tasks plannerMembers =
     (let memberIndex = buildMemberIndex U plannerMembers
      in fold (\<lambda>task processedTasks. processedTasks @ [processAssignees U memberIndex task]) tasks [])"

section \<open>Bucket matcher\<close>

record Bucket =
  bucket_id :: jsstring
  bucket_name :: jsstring
  planId :: jsstring

text \<open>
  \<open>bucketLookup\<close> is a plain object used as a dictionary. Its own properties are kept in
  the order of their creation; assigning to an existing key keeps the key's place. A read
  \<open>bucketLookup[k]\<close> of a key that is no own property goes on to the prototype of plain
  objects, whose methods are inherited under the names below. (The runtime of the program
  removes the accessor \<open>__proto__\<close> from that prototype at start-up, so \<open>__proto__\<close> is a
  key like any other.)
\<close>

type_synonym BucketTable = "(jsstring \<times> Bucket) list"

definition objectPrototypeNames :: "jsstring list" where
  "objectPrototypeNames =
     [ustr ''constructor'', ustr ''hasOwnProperty'', ustr ''isPrototypeOf'',
      ustr ''propertyIsEnumerable'', ustr ''toLocaleString'', ustr ''toString'',
      ustr ''valueOf'', ustr ''__defineGetter__'', ustr ''__defineSetter__'',
      ustr ''__lookupGetter__'', ustr ''__lookupSetter__'']"

datatype Looked = GotBucket Bucket | GotInherited | GotUndefined

definition tableGet :: "BucketTable \<Rightarrow> jsstring \<Rightarrow> Looked" where
  "tableGet t k =
     (case map_of t k of
        Some b \<Rightarrow> GotBucket b
      | None \<Rightarrow> if k \<in> set objectPrototypeNames then GotInherited else GotUndefined)"

definition setBucket :: "unicode \<Rightarrow> Bucket \<Rightarrow> BucketTable \<Rightarrow> BucketTable" where
  "setBucket U bucket t = AList.update (toLowerCase U (bucket_name bucket)) bucket t"

definition buildBucketLookup :: "unicode \<Rightarrow> Bucket list \<Rightarrow> BucketTable" where
  "buildBucketLookup U buckets = fold (setBucket U) buckets []"

text \<open>
  \<open>Object.entries\<close>: the own properties whose key is an array index (a canonical decimal
  numeral up to \<open>2^32 - 2\<close>) come first, in ascending order, then the others in the order
  of their creation.
\<close>

definition isDigit :: "nat \<Rightarrow> bool" where
  "isDigit c = (0x30 \<le> c \<and> c \<le> 0x39)"

definition digitsValue :: "jsstring \<Rightarrow> nat" where
  "digitsValue s = fold (\<lambda>c n. 10 * n + (c - 0x30)) s 0"

definition isArrayIndex :: "jsstring \<Rightarrow> bool" where
  "isArrayIndex s =
     (s \<noteq> [] \<and> list_all isDigit s \<and> (s = [0x30] \<or> take 1 s \<noteq> [0x30])
      \<and> digitsValue s \<le> 4294967294)"

definition indexKeyed :: "jsstring \<times> Bucket \<Rightarrow> bool" where
  "indexKeyed e = isArrayIndex (fst e)"

definition otherKeyed :: "jsstring \<times> Bucket \<Rightarrow> bool" where
  "otherKeyed e = (\<not> isArrayIndex (fst e))"

definition indexOf :: "jsstring \<times> Bucket \<Rightarrow> nat" where
  "indexOf e = digitsValue (fst e)"

definition objectEntries :: "BucketTable \<Rightarrow> (jsstring \<times> Bucket) list" where
  "objectEntries t = sort_key indexOf (filter indexKeyed t) @ filter otherKeyed t"

text \<open>
  \<open>{ ...x, exactMatch: b }\<close>, as far as the program reads it afterwards: \<open>id\<close>, \<open>name\<close> and
  \<open>exactMatch\<close>. Spreading a bucket copies its \<open>id\<close> and \<open>name\<close>; spreading an inherited
  method copies nothing, since a function has no enumerable own property.
\<close>

record MatchedBucket =
  mb_id :: "jsstring option"
  mb_name :: "jsstring option"
  exactMatch :: bool

definition spreadBucket :: "Bucket \<Rightarrow> bool \<Rightarrow> MatchedBucket" where
  "spreadBucket b flag = \<lparr> mb_id = Some (bucket_id b), mb_name = Some (bucket_name b), exactMatch = flag \<rparr>"

definition spreadInherited :: "bool \<Rightarrow> MatchedBucket" where
  "spreadInherited flag = \<lparr> mb_id = None, mb_name = None, exactMatch = flag \<rparr>"

text \<open>
  The fuzzy pass. A score is the quotient of two lengths; it is modelled by the exact
  rational, which compares with \<open>0.5\<close> and with another score as the rounded quotient of
  the source does for names shorter than \<open>2^26\<close> code units. (For two empty names the
  source computes \<open>NaN\<close>, which is greater than nothing; the model computes \<open>0\<close>, which is
  greater than no score.)
\<close>

record Best =
  bestMatch :: "MatchedBucket option"
  bestScore :: rat

definition contained :: "jsstring \<Rightarrow> jsstring \<Rightarrow> bool" where
  "contained lowerName availableName =
     (js_includes lowerName availableName \<or> js_includes availableName lowerName)"

definition lengthScore :: "jsstring \<Rightarrow> jsstring \<Rightarrow> rat" where
  "lengthScore label availableName =
     of_nat (min (length label) (length availableName))
       / of_nat (max (length label) (length availableName))"

definition fuzzyStep :: "jsstring \<Rightarrow> jsstring \<Rightarrow> jsstring \<times> Bucket \<Rightarrow> Best \<Rightarrow> Best" where
  "fuzzyStep label lowerName e st =
     (if contained lowerName (fst e)
      then (if lengthScore label (fst e) > bestScore st \<and> lengthScore label (fst e) > 1 / 2
            then \<lparr> bestMatch = Some (spreadBucket (snd e) False),
                   bestScore = lengthScore label (fst e) \<rparr>
            else st)
      else st)"

definition fuzzyPass :: "jsstring \<Rightarrow> jsstring \<Rightarrow> BucketTable \<Rightarrow> Best" where
  "fuzzyPass label lowerName t =
     fold (fuzzyStep label lowerName) (objectEntries t) \<lparr> bestMatch = None, bestScore = 0 \<rparr>"

text \<open>The value stored in \<open>bucketMapping\<close> for one label; \<open>None\<close> is \<open>null\<close>.\<close>

fun resolveLooked :: "jsstring \<Rightarrow> jsstring \<Rightarrow> BucketTable \<Rightarrow> Looked \<Rightarrow> MatchedBucket option" where
  "resolveLooked label lowerName t (GotBucket b) = Some (spreadBucket b True)"
| "resolveLooked label lowerName t GotInherited = Some (spreadInherited True)"
| "resolveLooked label lowerName t GotUndefined = bestMatch (fuzzyPass label lowerName t)"

definition resolveBucket :: "unicode \<Rightarrow> BucketTable \<Rightarrow> jsstring \<Rightarrow> MatchedBucket option" where
  "resolveBucket U t label =
     resolveLooked label (toLowerCase U label) t (tableGet t (toLowerCase U label))"

definition addBucketName :: "'a ParsedTask_scheme \<Rightarrow> jsstring list \<Rightarrow> jsstring list" where
  "addBucketName task names =
     (if truthy (bucketName task) then setAdd names (orEmpty (bucketName task)) else names)"

definition uniqueBucketNames :: "'a ParsedTask_scheme list \<Rightarrow> jsstring list" where
  "uniqueBucketNames tasks = fold addBucketName tasks []"

text \<open>
  \<open>bucketMapping\<close> is a plain object too, but every key that is read from it has been
  assigned before (each truthy \<open>task.bucketName\<close> is in \<open>uniqueBucketNames\<close>), so that a
  read never reaches the prototype.
\<close>

type_synonym BucketMapping = "(jsstring \<times> MatchedBucket option) list"

definition mapBucketName :: "unicode \<Rightarrow> BucketTable \<Rightarrow> jsstring \<Rightarrow> BucketMapping \<Rightarrow> BucketMapping" where
  "mapBucketName U t label mapping = AList.update label (resolveBucket U t label) mapping"

definition buildBucketMapping :: "unicode \<Rightarrow> BucketTable \<Rightarrow> jsstring list \<Rightarrow> BucketMapping" where
  "buildBucketMapping U t names = fold (mapBucketName U t) names []"

definition mappedBucket :: "BucketMapping \<Rightarrow> jsstring \<Rightarrow> MatchedBucket option" where
  "mappedBucket mapping label =
     (case map_of mapping label of None \<Rightarrow> None | Some v \<Rightarrow> v)"

definition enrichTask :: "BucketMapping \<Rightarrow> ProcessedTask \<Rightarrow> ProcessedTask" where
  "enrichTask mapping task =
     (if truthy (bucketName task)
      then (case mappedBucket mapping (orEmpty (bucketName task)) of
              Some matchedBucket \<Rightarrow>
                task \<lparr> bucketInfo :=
                         Some \<lparr> info_id = mb_id matchedBucket, info_name = mb_name matchedBucket,
                                info_originalName = orEmpty (bucketName task),
                                info_exactMatch = exactMatch matchedBucket \<rparr> \<rparr>
            | None \<Rightarrow> task \<lparr> bucketLookupFailed := Some True \<rparr>)
      else task)"

text \<open>
  \<open>lookupBuckets\<close>; \<open>buckets\<close> is what \<open>auth.getPlannerBuckets\<close> returned.
\<close>

definition lookupBuckets :: "unicode \<Rightarrow> ProcessedTask list \<Rightarrow> Bucket list \<Rightarrow> ProcessedTask list" where
  "lookupBuckets U tasks buckets =
     (let bucketLookup = buildBucketLookup U buckets;
          bucketMapping = buildBucketMapping U bucketLookup (uniqueBucketNames tasks)
      in fold (\<lambda>task enrichedTasks. enrichedTasks @ [enrichTask bucketMapping task]) tasks [])"

section \<open>Task objects and references\<close>

text \<open>
  For the question which objects the two operations write to, the objects are put into a
  store: a task object, a roster member and a bucket are each found under a reference, and
  the task objects at the references below \<open>fresh\<close> are the ones that exist. The arrays
  that the operations receive are lists of references. The operations assign to fields
  of task objects only (never to an element of an array, or to a field of a member or of a
  bucket), so the values of the fields are kept in the objects as they are in the records.
\<close>

record Store =
  taskObj :: "nat \<Rightarrow> ProcessedTask"
  memberObj :: "nat \<Rightarrow> PlannerMember"
  bucketObj :: "nat \<Rightarrow> Bucket"
  fresh :: nat

text \<open>\<open>{ ...task }\<close> makes a new object with the fields of \<open>task\<close>.\<close>

definition newObject :: "ProcessedTask \<Rightarrow> Store \<Rightarrow> nat \<times> Store" where
  "newObject v s = (fresh s, s \<lparr> taskObj := (taskObj s) (fresh s := v), fresh := Suc (fresh s) \<rparr>)"

text \<open>Assignments to fields of the object at a reference.\<close>

definition updateObject :: "nat \<Rightarrow> (ProcessedTask \<Rightarrow> ProcessedTask) \<Rightarrow> Store \<Rightarrow> Store" where
  "updateObject r f s = s \<lparr> taskObj := (taskObj s) (r := f (taskObj s r)) \<rparr>"

text \<open>
  The body of both loops over the tasks: the task is copied into a new object, the
  assignments \<open>writes\<close>, which read \<open>task\<close>, are made to the copy, and the copy is pushed.
\<close>

definition copyAndWrite :: "(ProcessedTask \<Rightarrow> ProcessedTask \<Rightarrow> ProcessedTask) \<Rightarrow> nat
    \<Rightarrow> nat list \<times> Store \<Rightarrow> nat list \<times> Store" where
  "copyAndWrite writes r st =
     (let task = taskObj (snd st) r;
          copied = newObject task (snd st);
          s2 = updateObject (fst copied) (writes task) (snd copied)
      in (fst st @ [fst copied], s2))"

text \<open>The assignments of \<open>lookupAssignees\<close> to \<open>processedTask\<close>.\<close>

definition assigneeWrites :: "unicode \<Rightarrow> MemberIndex \<Rightarrow> ProcessedTask \<Rightarrow> ProcessedTask \<Rightarrow> ProcessedTask" where
  "assigneeWrites U memberIndex task processedTask =
     (if (case assignees task of None \<Rightarrow> False | Some names \<Rightarrow> names \<noteq> [])
      then
        let r = mergeAssignees U memberIndex (case assignees task of None \<Rightarrow> [] | Some names \<Rightarrow> names)
        in processedTask
             \<lparr> assigneeUsers := someIfNonEmpty (matchedUsers r) (assigneeUsers processedTask),
               assigneeLookupFailedList :=
                 someIfNonEmpty (failed r) (assigneeLookupFailedList processedTask),
               assigneeCandidates :=
                 someIfNonEmpty (mergedCandidates r) (assigneeCandidates processedTask),
               assigneeNeedsReview :=
                 (if mergedNeedsReview r then Some True else assigneeNeedsReview processedTask) \<rparr>
      else if truthy (assignee task)
      then
        let result = evaluateAssignee U memberIndex (orEmpty (assignee task)) in
        if users result \<noteq> [] then processedTask \<lparr> assigneeUsers := Some (users result) \<rparr>
        else processedTask
               \<lparr> assigneeLookupFailed := Some True,
                 assigneeCandidates :=
                   someIfNonEmpty (candidates result) (assigneeCandidates processedTask),
                 assigneeNeedsReview := Some True \<rparr>
      else processedTask)"

definition lookupAssigneesStore :: "unicode \<Rightarrow> nat list \<Rightarrow> nat list \<Rightarrow> Store \<Rightarrow> nat list \<times> Store" where
  "lookupAssigneesStore U taskRefs memberRefs s =
     (let memberIndex = buildMemberIndex U (map (memberObj s) memberRefs)
      in fold (copyAndWrite (assigneeWrites U memberIndex)) taskRefs ([], s))"

text \<open>The assignments of \<open>lookupBuckets\<close> to \<open>enrichedTask\<close>.\<close>

definition bucketWrites :: "BucketMapping \<Rightarrow> ProcessedTask \<Rightarrow> ProcessedTask \<Rightarrow> ProcessedTask" where
  "bucketWrites mapping task enrichedTask =
     (if truthy (bucketName task)
      then (case mappedBucket mapping (orEmpty (bucketName task)) of
              Some matchedBucket \<Rightarrow>
                enrichedTask \<lparr> bucketInfo :=
                         Some \<lparr> info_id = mb_id matchedBucket, info_name = mb_name matchedBucket,
                                info_originalName = orEmpty (bucketName task),
                                info_exactMatch = exactMatch matchedBucket \<rparr> \<rparr>
            | None \<Rightarrow> enrichedTask \<lparr> bucketLookupFailed := Some True \<rparr>)
      else enrichedTask)"

definition lookupBucketsStore :: "unicode \<Rightarrow> nat list \<Rightarrow> nat list \<Rightarrow> Store \<Rightarrow> nat list \<times> Store" where
  "lookupBucketsStore U taskRefs bucketRefs s =
     (let bucketLookup = buildBucketLookup U (map (bucketObj s) bucketRefs);
          bucketMapping = buildBucketMapping U bucketLookup (uniqueBucketNames (map (taskObj s) taskRefs))
      in fold (copyAndWrite (bucketWrites bucketMapping)) taskRefs ([], s))"

section \<open>Notions used in the proofs\<close>

subsection \<open>Keys\<close>

text \<open>
  A string is \<open>spaced\<close> when it consists of characters \<open>a-z0-9\<close> and single spaces, a
  space being followed by a character \<open>a-z0-9\<close> unless it is the last one; it is
  \<open>normalized\<close> when moreover trimming does not change it.
\<close>

fun spaced :: "jsstring \<Rightarrow> bool" where
  "spaced [] = True"
| "spaced [c] = (isLowerAlnum c \<or> c = 0x20)"
| "spaced (c # d # cs) = ((isLowerAlnum c \<or> (c = 0x20 \<and> isLowerAlnum d)) \<and> spaced (d # cs))"

definition normalized :: "jsstring \<Rightarrow> bool" where
  "normalized s = (spaced s \<and> js_trim s = s)"

text \<open>What \<open>normalizeKey\<close> computes on a string of ASCII code units, whatever the tables.\<close>

definition asciiKey :: "jsstring \<Rightarrow> jsstring" where
  "asciiKey v =
    (if v = [] then []
     else replaceRuns isWhiteSpace [0x20] (js_trim (replaceRuns notLowerAlnum [0x20]
            (map asciiLower (filter notCombiningMark v)))))"

subsection \<open>Roster and matches\<close>

definition hasKey :: "unicode \<Rightarrow> jsstring \<Rightarrow> PlannerMember \<Rightarrow> bool" where
  "hasKey U k m = (k \<in> set (generateMemberKeys U m))"

definition mkEntry :: "unicode \<Rightarrow> PlannerMember \<Rightarrow> IndexEntry" where
  "mkEntry U m = \<lparr> member = m, searchText = memberSearchText U m \<rparr>"

text \<open>Pushing the members of a list one by one, each unless its id is there already.\<close>

definition dedupById :: "PlannerMember list \<Rightarrow> PlannerMember list" where
  "dedupById ms = fold pushUnique ms []"

text \<open>The members of the entries that qualify in the fallback scan, in the order of the entries.\<close>

definition qualifying :: "unicode \<Rightarrow> jsstring \<Rightarrow> MemberIndex \<Rightarrow> PlannerMember list" where
  "qualifying U name index =
     map member (filter (qualifies (tokens (generateAssigneeKeys U name))) (entries index))"

definition resolvedUsers :: "MatchOutcome \<Rightarrow> AssigneeUser list" where
  "resolvedUsers out = (case out of Resolved us \<Rightarrow> us | Ambiguous cs \<Rightarrow> [] | Unresolved \<Rightarrow> [])"

definition ambiguousCandidates :: "MatchOutcome \<Rightarrow> AssigneeUser list" where
  "ambiguousCandidates out = (case out of Resolved us \<Rightarrow> [] | Ambiguous cs \<Rightarrow> cs | Unresolved \<Rightarrow> [])"

definition isResolved :: "MatchOutcome \<Rightarrow> bool" where
  "isResolved out = (case out of Resolved us \<Rightarrow> True | Ambiguous cs \<Rightarrow> False | Unresolved \<Rightarrow> False)"

subsection \<open>Buckets\<close>

definition sameLower :: "unicode \<Rightarrow> jsstring \<Rightarrow> Bucket \<Rightarrow> bool" where
  "sameLower U k b = (toLowerCase U (bucket_name b) = k)"

text \<open>The bucket that \<open>bucketLookup\<close> holds for a lower-cased name: the last one of that name.\<close>

definition lastNamed :: "unicode \<Rightarrow> jsstring \<Rightarrow> Bucket list \<Rightarrow> Bucket" where
  "lastNamed U k buckets = last (filter (sameLower U k) buckets)"



text \<open>What \<open>lookupBuckets\<close> does to one task, without the detour through \<open>bucketMapping\<close>.\<close>

definition enrichWith :: "unicode \<Rightarrow> Bucket list \<Rightarrow> ProcessedTask \<Rightarrow> ProcessedTask" where
  "enrichWith U buckets task =
     (if truthy (bucketName task)
      then (case resolveBucket U (buildBucketLookup U buckets) (orEmpty (bucketName task)) of
              Some matchedBucket \<Rightarrow>
                task \<lparr> bucketInfo :=
                         Some \<lparr> info_id = mb_id matchedBucket, info_name = mb_name matchedBucket,
                                info_originalName = orEmpty (bucketName task),
                                info_exactMatch = exactMatch matchedBucket \<rparr> \<rparr>
            | None \<Rightarrow> task \<lparr> bucketLookupFailed := Some True \<rparr>)
      else task)"

subsection \<open>Examples\<close>

text \<open>A roster member with an id and a display name only; a task with a title only; a bucket.\<close>

definition exMember :: "string \<Rightarrow> string \<Rightarrow> PlannerMember" where
  "exMember i n = \<lparr> id' = ustr i, displayName = ustr n, mail = None, userPrincipalName = None,
     givenName = None, surname = None, companyName = None \<rparr>"

definition exTask :: ParsedTask where
  "exTask = \<lparr> title = ustr ''Task'', description = None, startDate = None, dueDate = None,
     assignee = None, assignees = None, bucketName = None, status = None \<rparr>"

definition exBucket :: "string \<Rightarrow> string \<Rightarrow> Bucket" where
  "exBucket i n = \<lparr> bucket_id = ustr i, bucket_name = ustr n, planId = ustr ''plan'' \<rparr>"

text \<open>
  A store with one task object, one roster member and one bucket; and a task that an
  earlier fuzzy match has enriched.
\<close>

definition exStore :: Store where
  "exStore =
     \<lparr> taskObj = (\<lambda>a. spreadTask (exTask \<lparr> assignee := Some (ustr ''Ann Lee''),
                                            bucketName := Some (ustr ''Design'') \<rparr>)),
       memberObj = (\<lambda>a. exMember ''1'' ''Ann Lee''),
       bucketObj = (\<lambda>a. exBucket ''b1'' ''Design''),
       fresh = 1 \<rparr>"

definition exEnriched :: ProcessedTask where
  "exEnriched =
     (spreadTask (exTask \<lparr> bucketName := Some (ustr ''Design'') \<rparr>))
       \<lparr> bucketInfo :=
           Some \<lparr> info_id = Some (ustr ''b0''), info_name = Some (ustr ''Design Team''),
                  info_originalName = ustr ''Design'', info_exactMatch = False \<rparr> \<rparr>"

section \<open>Evaluation\<close>

text \<open>The definitions that the simplifier unfolds to run the model on a concrete input.\<close>

lemmas string_defs = ustr_def js_trim_def trimEnd_def isWhiteSpace_def notCombiningMark_def
  isCombiningMark_def notLowerAlnum_def isLowerAlnum_def isLineTerminator_def commaToSpace_def
  sp_def setAdd_def nonEmpty_def stripPart_def noParenOf_def truthy_def orEmpty_def

lemmas latin_defs = latinUnicode_def decomposeUnit_def lowerUnit_def

lemmas ascii_defs = asciiKey_def asciiLower_def isAscii_def

lemmas memberKey_defs = addDisplayNameKey_def addNameKeys_def addCompanyKeys_def addMailKey_def
  addPrincipalKey_def

lemmas assigneeKey_defs = addNoParenKey_def addEmailKey_def addCommaKeys_def

lemmas key_defs = normalizeKey_def generateAssigneeKeys_def assigneeKeySet_def assigneeTokens_def
  assigneeKey_defs generateMemberKeys_def memberKey_defs

lemmas index_defs = buildMemberIndex_def addMember_def addKey_def memberSearchText_def

lemmas match_defs = findMemberMatches_def matchKey_def matchEntry_def qualifies_def pushUnique_def
  sameId_def evaluateAssignee_def spreadMember_def outcome_def

lemmas example_defs = exMember_def exTask_def exBucket_def

section \<open>The normalizer\<close>

lemma alnum_not_ws: "isLowerAlnum c \<Longrightarrow> \<not> isWhiteSpace c"
  by (auto simp: isLowerAlnum_def isWhiteSpace_def)

lemma replaceRuns_hd:
  "replaceRuns notLowerAlnum [0x20] (dropWhile notLowerAlnum cs) = [] \<or>
   (\<exists>d ds. replaceRuns notLowerAlnum [0x20] (dropWhile notLowerAlnum cs) = d # ds \<and> isLowerAlnum d)"
proof (cases "dropWhile notLowerAlnum cs")
  case Nil
  then show ?thesis by (simp del: dropWhile_eq_Nil_conv)
next
  case (Cons d ds)
  then have "\<not> notLowerAlnum d"
    by (metis hd_dropWhile list.sel(1) list.distinct(1))
  with Cons show ?thesis by (simp add: notLowerAlnum_def)
qed

lemma spaced_replaceRuns: "spaced (replaceRuns notLowerAlnum [0x20] s)"
proof (induction "notLowerAlnum" "[0x20::nat]" s rule: replaceRuns.induct)
  case 1
  then show ?case by simp
next
  case (2 c cs)
  show ?case
  proof (cases "notLowerAlnum c")
    case True
    from replaceRuns_hd [of cs] show ?thesis
    proof
      assume "replaceRuns notLowerAlnum [0x20] (dropWhile notLowerAlnum cs) = []"
      with True show ?thesis by simp
    next
      assume "\<exists>d ds. replaceRuns notLowerAlnum [0x20] (dropWhile notLowerAlnum cs) = d # ds \<and> isLowerAlnum d"
      then obtain d ds where e: "replaceRuns notLowerAlnum [0x20] (dropWhile notLowerAlnum cs) = d # ds"
        and d: "isLowerAlnum d" by blast
      from 2(1) [OF True] e have "spaced (d # ds)" by simp
      with True e d show ?thesis by simp
    qed
  next
    case False
    then have c: "isLowerAlnum c" by (simp add: notLowerAlnum_def)
    from 2(2) [OF False] have ih: "spaced (replaceRuns notLowerAlnum [0x20] cs)" .
    show ?thesis
    proof (cases "replaceRuns notLowerAlnum [0x20] cs")
      case Nil
      with False c show ?thesis by simp
    next
      case (Cons d ds)
      with False c ih show ?thesis by simp
    qed
  qed
qed

lemma spaced_fix_alnum: "spaced s \<Longrightarrow> replaceRuns notLowerAlnum [0x20] s = s"
proof (induction s rule: spaced.induct)
  case 1
  then show ?case by simp
next
  case (2 c)
  then show ?case by (auto simp: notLowerAlnum_def)
next
  case (3 c d cs)
  then show ?case by (auto simp: notLowerAlnum_def)
qed

lemma spaced_fix_ws: "spaced s \<Longrightarrow> replaceRuns isWhiteSpace [0x20] s = s"
proof (induction s rule: spaced.induct)
  case 1
  then show ?case by simp
next
  case (2 c)
  then show ?case by (auto simp: alnum_not_ws)
next
  case (3 c d cs)
  then show ?case by (auto simp: alnum_not_ws)
qed

lemma spaced_Cons: "spaced (c # cs) \<Longrightarrow> spaced cs"
  by (cases cs) auto

lemma spaced_dropWhile: "spaced s \<Longrightarrow> spaced (dropWhile p s)"
  by (induction s) (auto dest: spaced_Cons)

lemma spaced_append: "spaced (a @ b) \<Longrightarrow> spaced a"
proof (induction a rule: spaced.induct)
  case 1
  then show ?case by simp
next
  case (2 c)
  then show ?case by (cases b) auto
next
  case (3 c d cs)
  then show ?case by auto
qed

lemma trimEnd_prefix: "trimEnd s @ rev (takeWhile isWhiteSpace (rev s)) = s"
proof -
  have "rev (takeWhile isWhiteSpace (rev s) @ dropWhile isWhiteSpace (rev s)) = s"
    by simp
  then show ?thesis unfolding trimEnd_def rev_append .
qed

lemma spaced_trimEnd: "spaced s \<Longrightarrow> spaced (trimEnd s)"
  using spaced_append [of "trimEnd s" "rev (takeWhile isWhiteSpace (rev s))"]
  by (simp add: trimEnd_prefix)

lemma spaced_trim: "spaced s \<Longrightarrow> spaced (js_trim s)"
  by (simp add: js_trim_def spaced_trimEnd spaced_dropWhile)

lemma trimEnd_id: "s = [] \<or> \<not> isWhiteSpace (last s) \<Longrightarrow> trimEnd s = s"
  by (cases s rule: rev_cases) (auto simp: trimEnd_def)

lemma trimEnd_last: "trimEnd s = [] \<or> \<not> isWhiteSpace (last (trimEnd s))"
proof (cases "dropWhile isWhiteSpace (rev s)")
  case Nil
  then show ?thesis by (simp add: trimEnd_def)
next
  case (Cons d ds)
  then have "\<not> isWhiteSpace d"
    by (metis hd_dropWhile list.sel(1) list.distinct(1))
  with Cons show ?thesis by (simp add: trimEnd_def)
qed

lemma trimEnd_hd: "trimEnd s \<noteq> [] \<Longrightarrow> hd (trimEnd s) = hd s"
  by (metis hd_append2 trimEnd_prefix)

lemma dropWhile_hd: "dropWhile p s = [] \<or> \<not> p (hd (dropWhile p s))"
  by (metis hd_dropWhile)

lemma js_trim_idem: "js_trim (js_trim s) = js_trim s"
proof (cases "js_trim s = []")
  case True
  have "js_trim [] = []" by (simp add: js_trim_def trimEnd_def)
  with True show ?thesis by simp
next
  case False
  let ?d = "dropWhile isWhiteSpace s"
  have t: "js_trim s = trimEnd ?d" by (simp add: js_trim_def)
  from False t have "hd (js_trim s) = hd ?d" by (simp add: trimEnd_hd)
  moreover have "trimEnd [] = []" by (simp add: trimEnd_def)
  with False t have "?d \<noteq> []" by metis
  ultimately have "\<not> isWhiteSpace (hd (js_trim s))" using dropWhile_hd [of isWhiteSpace s] by auto
  with False have "dropWhile isWhiteSpace (js_trim s) = js_trim s"
    by (cases "js_trim s") auto
  moreover have "trimEnd (js_trim s) = js_trim s"
    using trimEnd_last [of ?d] by (intro trimEnd_id) (simp add: t)
  ultimately show ?thesis by (simp add: js_trim_def [of "js_trim s"])
qed

lemma spaced_chars: "spaced s \<Longrightarrow> c \<in> set s \<Longrightarrow> isLowerAlnum c \<or> c = 0x20"
  by (induction s rule: spaced.induct) auto

lemma normalizeKey_normalized: "normalized (normalizeKey U v)"
proof (cases "v = []")
  case True
  then show ?thesis by (simp add: normalizeKey_def normalized_def js_trim_def trimEnd_def)
next
  case False
  let ?r = "replaceRuns notLowerAlnum [0x20] (toLowerCase U (filter notCombiningMark (nfkd U v)))"
  have s: "spaced (js_trim ?r)" by (simp add: spaced_trim spaced_replaceRuns)
  then have "normalizeKey U v = js_trim ?r"
    using False by (simp add: normalizeKey_def spaced_fix_ws)
  with s show ?thesis by (simp add: normalized_def js_trim_idem)
qed

lemma normalized_ascii: "normalized s \<Longrightarrow> list_all isAscii s"
  unfolding normalized_def list_all_iff
  by (auto dest!: spaced_chars simp: isLowerAlnum_def isAscii_def)

lemma normalized_lower: "normalized s \<Longrightarrow> map asciiLower s = s"
  unfolding normalized_def
  by (intro map_idI) (auto dest!: spaced_chars simp: isLowerAlnum_def asciiLower_def)

lemma normalized_marks: "normalized s \<Longrightarrow> filter notCombiningMark s = s"
  unfolding normalized_def
  by (intro filter_True) (auto dest!: spaced_chars simp: isLowerAlnum_def notCombiningMark_def isCombiningMark_def)

lemma normalized_fixed:
  assumes "unicode_ok U" and "normalized s"
  shows "normalizeKey U s = s"
proof (cases "s = []")
  case True
  then show ?thesis by (simp add: normalizeKey_def)
next
  case False
  from assms have "nfkd U s = s" by (simp add: unicode_ok_def normalized_ascii)
  moreover from assms have "toLowerCase U s = s"
    by (simp add: unicode_ok_def normalized_ascii normalized_lower)
  moreover from assms(2) have "spaced s" "js_trim s = s" by (simp_all add: normalized_def)
  ultimately show ?thesis
    using assms(2) by (simp add: normalizeKey_def normalized_marks spaced_fix_alnum spaced_fix_ws)
qed

lemma normalizeKey_asciiKey:
  assumes "unicode_ok U" and "list_all isAscii v"
  shows "normalizeKey U v = asciiKey v"
proof -
  from assms have "nfkd U v = v" by (simp add: unicode_ok_def)
  moreover have "list_all isAscii (filter notCombiningMark v)"
    using assms(2) by (simp add: list_all_iff)
  with assms(1) have "toLowerCase U (filter notCombiningMark v) = map asciiLower (filter notCombiningMark v)"
    by (simp add: unicode_ok_def)
  ultimately show ?thesis by (simp add: normalizeKey_def asciiKey_def)
qed

lemma unicode_ok_latin: "unicode_ok latinUnicode"
proof -
  have d: "list_all isAscii s \<Longrightarrow> concat (map decomposeUnit s) = s" for s
    by (induction s) (auto simp: decomposeUnit_def isAscii_def)
  have l: "list_all isAscii s \<Longrightarrow> map lowerUnit s = map asciiLower s" for s
    by (induction s) (auto simp: lowerUnit_def asciiLower_def isAscii_def)
  show ?thesis by (simp add: unicode_ok_def latinUnicode_def d l)
qed

text \<open>
  C7. The normalizer is idempotent: \<open>normalizeKey (normalizeKey s) = normalizeKey s\<close> for
  every string \<open>s\<close>; and \<open>Jos\<acute>e   P\<acute>erez\<close> (with U+00E9, which the decomposition turns
  into \<open>e\<close> and the combining acute accent U+0301) has the key of \<open>JOSE  PEREZ\<close>.
\<close>

theorem normalizeKey_idempotent:
  assumes "unicode_ok U"
    and "nfkd U [0x4A, 0x6F, 0x73, 0xE9, 0x20, 0x20, 0x20, 0x50, 0xE9, 0x72, 0x65, 0x7A]
           = [0x4A, 0x6F, 0x73, 0x65, 0x301, 0x20, 0x20, 0x20, 0x50, 0x65, 0x301, 0x72, 0x65, 0x7A]"
  shows "normalizeKey U (normalizeKey U s) = normalizeKey U s
     \<and> normalizeKey U [0x4A, 0x6F, 0x73, 0xE9, 0x20, 0x20, 0x20, 0x50, 0xE9, 0x72, 0x65, 0x7A]
         = normalizeKey U (ustr ''JOSE  PEREZ'')"
proof
  show "normalizeKey U (normalizeKey U s) = normalizeKey U s"
    using assms(1) by (simp add: normalized_fixed normalizeKey_normalized)
next
  have a: "list_all isAscii [0x4A, 0x6F, 0x73, 0x65, 0x20, 0x20, 0x20, 0x50, 0x65, 0x72, 0x65, 0x7A]"
    by (simp add: isAscii_def)
  have "toLowerCase U [0x4A, 0x6F, 0x73, 0x65, 0x20, 0x20, 0x20, 0x50, 0x65, 0x72, 0x65, 0x7A]
    = map asciiLower [0x4A, 0x6F, 0x73, 0x65, 0x20, 0x20, 0x20, 0x50, 0x65, 0x72, 0x65, 0x7A]"
    using assms(1) a unfolding unicode_ok_def by blast
  then have l: "normalizeKey U [0x4A, 0x6F, 0x73, 0xE9, 0x20, 0x20, 0x20, 0x50, 0xE9, 0x72, 0x65, 0x7A]
    = ustr ''jose perez''"
    by (simp add: normalizeKey_def assms(2) notCombiningMark_def isCombiningMark_def
        asciiLower_def notLowerAlnum_def isLowerAlnum_def js_trim_def trimEnd_def isWhiteSpace_def ustr_def)
  have "list_all isAscii (ustr ''JOSE  PEREZ'')" by (simp add: ustr_def isAscii_def)
  then have r: "normalizeKey U (ustr ''JOSE  PEREZ'') = ustr ''jose perez''"
    using assms(1)
    by (simp add: normalizeKey_asciiKey asciiKey_def)
      (simp add: ustr_def notCombiningMark_def isCombiningMark_def
        asciiLower_def notLowerAlnum_def isLowerAlnum_def js_trim_def trimEnd_def isWhiteSpace_def)
  from l r show "normalizeKey U [0x4A, 0x6F, 0x73, 0xE9, 0x20, 0x20, 0x20, 0x50, 0xE9, 0x72, 0x65, 0x7A]
         = normalizeKey U (ustr ''JOSE  PEREZ'')" by simp
qed

theorem normalizeKey_idempotent_witness:
  "unicode_ok latinUnicode
   \<and> nfkd latinUnicode [0x4A, 0x6F, 0x73, 0xE9, 0x20, 0x20, 0x20, 0x50, 0xE9, 0x72, 0x65, 0x7A]
       = [0x4A, 0x6F, 0x73, 0x65, 0x301, 0x20, 0x20, 0x20, 0x50, 0x65, 0x301, 0x72, 0x65, 0x7A]
   \<and> normalizeKey latinUnicode (normalizeKey latinUnicode (ustr '' Ann  LEE ''))
       = normalizeKey latinUnicode (ustr '' Ann  LEE '')
   \<and> normalizeKey latinUnicode [0x4A, 0x6F, 0x73, 0xE9, 0x20, 0x20, 0x20, 0x50, 0xE9, 0x72, 0x65, 0x7A]
       = normalizeKey latinUnicode (ustr ''JOSE  PEREZ'')"
proof -
  have d: "nfkd latinUnicode [0x4A, 0x6F, 0x73, 0xE9, 0x20, 0x20, 0x20, 0x50, 0xE9, 0x72, 0x65, 0x7A]
       = [0x4A, 0x6F, 0x73, 0x65, 0x301, 0x20, 0x20, 0x20, 0x50, 0x65, 0x301, 0x72, 0x65, 0x7A]"
    by (simp add: latinUnicode_def decomposeUnit_def)
  show ?thesis
    using unicode_ok_latin d
      normalizeKey_idempotent [OF unicode_ok_latin d, of "ustr '' Ann  LEE ''"]
    by simp
qed

section \<open>The roster index and the matcher\<close>

subsection \<open>Sets of keys\<close>

lemma distinct_setAdd: "distinct ks \<Longrightarrow> distinct (setAdd ks k)"
  by (simp add: setAdd_def)

lemma set_setAdd: "set (setAdd ks k) = insert k (set ks)"
  by (auto simp: setAdd_def)

lemma distinct_generateMemberKeys: "distinct (generateMemberKeys U m)"
  by (simp add: generateMemberKeys_def memberKey_defs distinct_setAdd)

lemma nonEmpty_generateMemberKeys: "k \<in> set (generateMemberKeys U m) \<Longrightarrow> k \<noteq> []"
  by (auto simp: generateMemberKeys_def nonEmpty_def)

lemma displayName_key:
  assumes "normalizeKey U (displayName m) = k" and "k \<noteq> []"
  shows "k \<in> set (generateMemberKeys U m)"
proof -
  from assms have "displayName m \<noteq> []" by (auto simp: normalizeKey_def)
  with assms show ?thesis
    by (simp add: generateMemberKeys_def memberKey_defs set_setAdd nonEmpty_def)
qed

subsection \<open>The index\<close>

lemma fold_addKey:
  "distinct ks \<Longrightarrow>
   fold (addKey m) ks km k =
     (if k \<in> set ks then Some ((case km k of None \<Rightarrow> [] | Some e \<Rightarrow> e) @ [m]) else km k)"
proof (induction ks arbitrary: km)
  case Nil
  then show ?case by simp
next
  case (Cons a ks)
  then show ?case by (auto simp: addKey_def)
qed

lemma keyMap_addMember:
  "keyMap (addMember U m idx) k =
     (if hasKey U k m then Some ((case keyMap idx k of None \<Rightarrow> [] | Some e \<Rightarrow> e) @ [m])
      else keyMap idx k)"
  by (simp add: addMember_def fold_addKey distinct_generateMemberKeys hasKey_def)

lemma keyMap_fold:
  "keyMap (fold (addMember U) ms idx) k =
     (if filter (hasKey U k) ms = [] then keyMap idx k
      else Some ((case keyMap idx k of None \<Rightarrow> [] | Some e \<Rightarrow> e) @ filter (hasKey U k) ms))"
proof (induction ms arbitrary: idx)
  case Nil
  then show ?case by simp
next
  case (Cons m ms)
  show ?case by (simp add: Cons.IH keyMap_addMember)
qed

lemma keyMap_build:
  "keyMap (buildMemberIndex U members) k =
     (if filter (hasKey U k) members = [] then None else Some (filter (hasKey U k) members))"
  by (simp add: buildMemberIndex_def keyMap_fold)

lemma entries_fold: "entries (fold (addMember U) ms idx) = entries idx @ map (mkEntry U) ms"
  by (induction ms arbitrary: idx) (simp_all add: addMember_def mkEntry_def)

lemma entries_build: "entries (buildMemberIndex U members) = map (mkEntry U) members"
  by (simp add: buildMemberIndex_def entries_fold)

lemma keyMap_build_empty: "keyMap (buildMemberIndex U members) [] = None"
proof -
  have "filter (hasKey U []) members = []"
    by (auto simp: filter_empty_conv hasKey_def dest: nonEmpty_generateMemberKeys)
  then show ?thesis by (simp add: keyMap_build)
qed

subsection \<open>Matches are distinct by id\<close>

lemma ids_pushUnique: "id' ` set (pushUnique m acc) = insert (id' m) (id' ` set acc)"
  by (auto simp: pushUnique_def list_ex_iff sameId_def intro: rev_image_eqI)

lemma distinct_pushUnique:
  "distinct (map id' acc) \<Longrightarrow> distinct (map id' (pushUnique m acc))"
  by (auto simp: pushUnique_def list_ex_iff sameId_def)

lemma ids_fold_pushUnique: "id' ` set (fold pushUnique ms acc) = id' ` set ms \<union> id' ` set acc"
  by (induction ms arbitrary: acc) (auto simp: ids_pushUnique)

lemma distinct_fold_pushUnique:
  "distinct (map id' acc) \<Longrightarrow> distinct (map id' (fold pushUnique ms acc))"
  by (induction ms arbitrary: acc) (auto simp: distinct_pushUnique)

lemma distinct_matchKey:
  "distinct (map id' acc) \<Longrightarrow> distinct (map id' (matchKey index k acc))"
  by (simp add: matchKey_def distinct_fold_pushUnique split: option.splits)

lemma distinct_fold_matchKey:
  "distinct (map id' acc) \<Longrightarrow> distinct (map id' (fold (matchKey index) ks acc))"
  by (induction ks arbitrary: acc) (auto simp: distinct_matchKey)

lemma distinct_matchEntry:
  "distinct (map id' acc) \<Longrightarrow> distinct (map id' (matchEntry toks e acc))"
  by (simp add: matchEntry_def distinct_pushUnique)

lemma distinct_fold_matchEntry:
  "distinct (map id' acc) \<Longrightarrow> distinct (map id' (fold (matchEntry toks) es acc))"
  by (induction es arbitrary: acc) (auto simp: distinct_matchEntry)

lemma distinct_findMemberMatches: "distinct (map id' (findMemberMatches U name index))"
  by (simp add: findMemberMatches_def Let_def distinct_fold_matchKey distinct_fold_matchEntry)

lemma id_spreadMember: "id' (spreadMember m n) = id' m"
  by (simp add: spreadMember_def)

lemma ids_spread: "map id' (map (\<lambda>x. spreadMember x n) ms) = map id' ms"
  by (simp add: id_spreadMember)

lemma evaluateMatches_cases:
  "evaluateMatches name ms =
     (if length ms = 1 then \<lparr> users = map (\<lambda>x. spreadMember x name) ms, candidates = [], needsReview = False \<rparr>
      else if length ms > 1 then \<lparr> users = [], candidates = map (\<lambda>x. spreadMember x name) ms, needsReview = True \<rparr>
      else \<lparr> users = [], candidates = [], needsReview = True \<rparr>)"
  by (induction name ms rule: evaluateMatches.induct) simp_all

lemma evaluateAssignee_cases:
  "evaluateAssignee U index name =
     (let ms = findMemberMatches U name index in
      if length ms = 1 then \<lparr> users = map (\<lambda>x. spreadMember x name) ms, candidates = [], needsReview = False \<rparr>
      else if length ms > 1 then \<lparr> users = [], candidates = map (\<lambda>x. spreadMember x name) ms, needsReview = True \<rparr>
      else \<lparr> users = [], candidates = [], needsReview = True \<rparr>)"
  by (simp only: evaluateAssignee_def evaluateMatches_cases Let_def)

lemma distinct_evaluateAssignee:
  "distinct (map id' (users (evaluateAssignee U index name)))
   \<and> distinct (map id' (candidates (evaluateAssignee U index name)))"
  using distinct_findMemberMatches [of U name index]
  by (simp add: evaluateAssignee_cases Let_def ids_spread del: map_map)

subsection \<open>Blank names\<close>

lemma js_trim_blank:
  assumes "list_all isWhiteSpace name"
  shows "js_trim name = []"
proof -
  from assms have "dropWhile isWhiteSpace name = []" by (simp add: list_all_iff)
  then show ?thesis by (simp only: js_trim_def trimEnd_def rev.simps dropWhile.simps)
qed

lemma nonEmpty_assigneeKeys: "k \<in> set (keys (generateAssigneeKeys U name)) \<Longrightarrow> k \<noteq> []"
  by (auto simp: generateAssigneeKeys_def Let_def nonEmpty_def split: if_splits)

lemma generateAssigneeKeys_blank:
  "list_all isWhiteSpace name \<Longrightarrow> generateAssigneeKeys U name = \<lparr> keys = [], tokens = [] \<rparr>"
  by (simp add: generateAssigneeKeys_def js_trim_blank)

subsection \<open>Members found under the keys\<close>

lemma ids_matchKey:
  "id' ` set (matchKey index k acc) =
     id' ` set (case keyMap index k of None \<Rightarrow> [] | Some ms \<Rightarrow> ms) \<union> id' ` set acc"
  by (simp add: matchKey_def ids_fold_pushUnique split: option.splits)

lemma ids_fold_matchKey:
  "id' ` set (fold (matchKey index) ks acc) =
     (\<Union>k \<in> set ks. id' ` set (case keyMap index k of None \<Rightarrow> [] | Some ms \<Rightarrow> ms)) \<union> id' ` set acc"
  by (induction ks arbitrary: acc) (auto simp: ids_matchKey)

lemma ids_found:
  assumes "k \<in> set ks" and "keyMap index k = Some ms"
  shows "id' ` set ms \<subseteq> id' ` set (fold (matchKey index) ks acc)"
proof -
  from assms(2) have "id' ` set ms = id' ` set (case keyMap index k of None \<Rightarrow> [] | Some ms \<Rightarrow> ms)"
    by simp
  then show ?thesis unfolding ids_fold_matchKey using assms(1) by blast
qed

subsection \<open>Substrings\<close>

lemma startsWith_iff: "startsWith s t \<longleftrightarrow> (\<exists>q. s = t @ q)"
  by (induction s t rule: startsWith.induct) auto

lemma js_includes_iff: "js_includes s t \<longleftrightarrow> (\<exists>p q. s = p @ t @ q)"
proof (induction s)
  case Nil
  then show ?case by simp
next
  case (Cons c cs)
  show ?case
  proof
    assume "js_includes (c # cs) t"
    then consider "startsWith (c # cs) t" | "js_includes cs t" by auto
    then show "\<exists>p q. c # cs = p @ t @ q"
    proof cases
      case 1
      then obtain q where "c # cs = t @ q" by (auto simp: startsWith_iff)
      then have "c # cs = [] @ t @ q" by simp
      then show ?thesis by blast
    next
      case 2
      with Cons obtain p q where "cs = p @ t @ q" by blast
      then have "c # cs = (c # p) @ t @ q" by simp
      then show ?thesis by blast
    qed
  next
    assume "\<exists>p q. c # cs = p @ t @ q"
    then obtain p q where e: "c # cs = p @ t @ q" by blast
    show "js_includes (c # cs) t"
    proof (cases p)
      case Nil
      with e have "startsWith (c # cs) t" by (auto simp: startsWith_iff)
      then show ?thesis by simp
    next
      case (Cons d p')
      with e have "cs = p' @ t @ q" by simp
      with Cons.IH have "js_includes cs t" by blast
      then show ?thesis by simp
    qed
  qed
qed

lemma qualifies_iff:
  "qualifies toks e \<longleftrightarrow> (\<forall>t \<in> set toks. \<exists>p q. searchText e = p @ t @ q)"
  by (simp add: qualifies_def list_all_iff js_includes_iff)

subsection \<open>The fallback scan\<close>

lemma fold_matchEntry:
  "fold (matchEntry toks) es acc = fold pushUnique (map member (filter (qualifies toks) es)) acc"
  by (induction es arbitrary: acc) (simp_all add: matchEntry_def)

lemma fold_matchKey_none:
  "\<forall>k \<in> set ks. keyMap index k = None \<or> keyMap index k = Some [] \<Longrightarrow>
   fold (matchKey index) ks acc = acc"
  by (induction ks arbitrary: acc) (auto simp: matchKey_def)

lemma set_pushUnique: "set (pushUnique m acc) \<subseteq> insert m (set acc)"
  by (auto simp: pushUnique_def)

lemma set_fold_pushUnique: "set (fold pushUnique ms acc) \<subseteq> set ms \<union> set acc"
proof (induction ms arbitrary: acc)
  case Nil
  then show ?case by simp
next
  case (Cons m ms)
  have "set (fold pushUnique ms (pushUnique m acc)) \<subseteq> set ms \<union> set (pushUnique m acc)"
    by (rule Cons.IH)
  also have "\<dots> \<subseteq> set ms \<union> insert m (set acc)"
    using set_pushUnique [of m acc] by blast
  finally show ?case by auto
qed

lemma set_dedupById: "set (dedupById ms) \<subseteq> set ms"
  using set_fold_pushUnique [of ms "[]"] by (simp add: dedupById_def)

lemma ids_dedupById: "id' ` set (dedupById ms) = id' ` set ms"
  by (simp add: dedupById_def ids_fold_pushUnique)

lemma distinct_dedupById: "distinct (map id' (dedupById ms))"
  by (simp add: dedupById_def distinct_fold_pushUnique)

lemma length_dedupById: "length (dedupById ms) = card (id' ` set ms)"
proof -
  have "card (set (map id' (dedupById ms))) = length (map id' (dedupById ms))"
    using distinct_dedupById by (rule distinct_card)
  then show ?thesis by (simp add: ids_dedupById)
qed

lemma dedupById_single:
  assumes "id' ` set ms = {i}"
  shows "\<exists>m \<in> set ms. id' m = i \<and> dedupById ms = [m]"
proof -
  from assms have "length (dedupById ms) = 1" by (simp add: length_dedupById)
  then obtain m where m: "dedupById ms = [m]"
    by (cases "dedupById ms") auto
  then have "m \<in> set ms" using set_dedupById [of ms] by auto
  moreover from m assms have "id' m = i"
    using ids_dedupById [of ms] by auto
  ultimately show ?thesis using m by blast
qed

lemma dedupById_many:
  assumes "a \<in> set ms" and "b \<in> set ms" and "id' a \<noteq> id' b"
  shows "length (dedupById ms) > 1"
proof -
  have "{id' a, id' b} \<subseteq> id' ` set ms" using assms by auto
  then have "card {id' a, id' b} \<le> card (id' ` set ms)" by (intro card_mono) auto
  with assms(3) show ?thesis by (simp add: length_dedupById)
qed

lemma findMemberMatches_fallback:
  assumes "\<forall>k \<in> set (keys (generateAssigneeKeys U name)). keyMap index k = None \<or> keyMap index k = Some []"
    and "tokens (generateAssigneeKeys U name) \<noteq> []"
  shows "findMemberMatches U name index = dedupById (qualifying U name index)"
  using assms
  by (simp add: findMemberMatches_def Let_def fold_matchKey_none fold_matchEntry dedupById_def
      qualifying_def)

subsection \<open>Several assignees\<close>

lemma users_outcome: "users (evaluateAssignee U index n) = resolvedUsers (outcome (evaluateAssignee U index n))"
  by (simp add: outcome_def resolvedUsers_def)

lemma candidates_outcome:
  "candidates (evaluateAssignee U index n) = ambiguousCandidates (outcome (evaluateAssignee U index n))"
  by (auto simp: outcome_def ambiguousCandidates_def evaluateAssignee_cases Let_def)

lemma isResolved_outcome:
  "isResolved (outcome (evaluateAssignee U index n)) \<longleftrightarrow> users (evaluateAssignee U index n) \<noteq> []"
  by (simp add: outcome_def isResolved_def)

lemma needsReview_outcome:
  "needsReview (evaluateAssignee U index n) \<longleftrightarrow> \<not> isResolved (outcome (evaluateAssignee U index n))"
  by (auto simp: outcome_def isResolved_def evaluateAssignee_cases Let_def)

lemma fold_mergeStep:
  "fold (mergeStep U index) names acc =
     \<lparr> matchedUsers = matchedUsers acc @ concat (map (\<lambda>n. users (evaluateAssignee U index n)) names),
       failed = failed acc @ filter (\<lambda>n. users (evaluateAssignee U index n) = []) names,
       mergedCandidates = mergedCandidates acc
          @ concat (map (\<lambda>n. candidates (evaluateAssignee U index n)) names),
       mergedNeedsReview = (mergedNeedsReview acc
          \<or> list_ex (\<lambda>n. needsReview (evaluateAssignee U index n)) names) \<rparr>"
proof (induction names arbitrary: acc)
  case Nil
  then show ?case by simp
next
  case (Cons n names)
  show ?case by (simp add: Cons.IH) (auto simp: mergeStep_def Let_def)
qed

lemma mergeAssignees_eq:
  "mergeAssignees U index names =
     \<lparr> matchedUsers = concat (map (\<lambda>n. users (evaluateAssignee U index n)) names),
       failed = filter (\<lambda>n. users (evaluateAssignee U index n) = []) names,
       mergedCandidates = concat (map (\<lambda>n. candidates (evaluateAssignee U index n)) names),
       mergedNeedsReview = list_ex (\<lambda>n. needsReview (evaluateAssignee U index n)) names \<rparr>"
  by (simp add: mergeAssignees_def fold_mergeStep)

subsection \<open>The names \<open>Ann Lee\<close> and \<open>Lee, Ann\<close>\<close>

lemma keys_Ann_Lee:
  assumes "unicode_ok U"
  shows "generateAssigneeKeys U (ustr ''Ann Lee'')
    = \<lparr> keys = [ustr ''ann lee'', ustr ''lee ann''], tokens = [ustr ''ann'', ustr ''lee''] \<rparr>"
  by (simp add: generateAssigneeKeys_def assigneeKeySet_def assigneeTokens_def assigneeKey_defs
      string_defs normalizeKey_asciiKey [OF assms] ascii_defs)

lemma keys_Lee_Ann:
  assumes "unicode_ok U"
  shows "generateAssigneeKeys U (ustr ''Lee, Ann'')
    = \<lparr> keys = [ustr ''lee ann'', ustr ''ann lee''], tokens = [ustr ''lee'', ustr ''ann''] \<rparr>"
  by (simp add: generateAssigneeKeys_def assigneeKeySet_def assigneeTokens_def assigneeKey_defs
      string_defs normalizeKey_asciiKey [OF assms] ascii_defs)

lemma swapped_Lee_Ann:
  assumes "unicode_ok U"
  shows "addCommaKeys U (ustr ''Lee, Ann'') [] = [ustr ''ann lee'', ustr ''lee ann'']"
  by (simp add: addCommaKeys_def string_defs normalizeKey_asciiKey [OF assms] ascii_defs)

lemma fold_pushUnique_only:
  assumes "\<forall>x \<in> set l. x = m" and "acc = [] \<or> acc = [m]"
  shows "fold pushUnique l acc = (if l = [] then acc else [m])"
  using assms
proof (induction l arbitrary: acc)
  case Nil
  then show ?case by simp
next
  case (Cons x l)
  then have x: "x = m" by simp
  from Cons.prems(2) have p: "pushUnique m acc = [m]"
    by (auto simp: pushUnique_def sameId_def)
  from Cons.prems(1) have "\<forall>x \<in> set l. x = m" by simp
  then have "fold pushUnique l [m] = (if l = [] then [m] else [m])"
    by (rule Cons.IH) simp
  with x p show ?case by simp
qed

lemma matchKey_only:
  assumes "\<forall>x \<in> set members. hasKey U k x \<longrightarrow> x = m" and "acc = [] \<or> acc = [m]"
  shows "matchKey (buildMemberIndex U members) k acc
    = (if filter (hasKey U k) members = [] then acc else [m])"
proof -
  from assms(1) have "\<forall>x \<in> set (filter (hasKey U k) members). x = m" by simp
  then have "fold pushUnique (filter (hasKey U k) members) acc
    = (if filter (hasKey U k) members = [] then acc else [m])"
    using assms(2) by (rule fold_pushUnique_only)
  then show ?thesis by (simp add: matchKey_def keyMap_build)
qed

lemma resolved_by_two_keys:
  assumes "m \<in> set members"
    and "hasKey U k1 m \<or> hasKey U k2 m"
    and "\<forall>x \<in> set members. hasKey U k1 x \<longrightarrow> x = m"
    and "\<forall>x \<in> set members. hasKey U k2 x \<longrightarrow> x = m"
    and "keys (generateAssigneeKeys U raw) = [k1, k2]"
  shows "outcome (evaluateAssignee U (buildMemberIndex U members) raw) = Resolved [spreadMember m raw]"
proof -
  let ?idx = "buildMemberIndex U members"
  have 1: "matchKey ?idx k1 [] = (if filter (hasKey U k1) members = [] then [] else [m])"
    using assms(3) by (rule matchKey_only) simp
  have 2: "matchKey ?idx k2 acc = (if filter (hasKey U k2) members = [] then acc else [m])"
    if "acc = [] \<or> acc = [m]" for acc
    using assms(4) that by (rule matchKey_only)
  from assms(1,2) have "filter (hasKey U k1) members \<noteq> [] \<or> filter (hasKey U k2) members \<noteq> []"
    by (auto simp: filter_empty_conv)
  then have "fold (matchKey ?idx) [k1, k2] [] = [m]"
    by (auto simp: 1 2)
  then have "findMemberMatches U raw ?idx = [m]"
    by (simp add: findMemberMatches_def Let_def assms(5))
  then show ?thesis by (simp add: evaluateAssignee_def outcome_def)
qed

section \<open>Claims about the assignee matcher\<close>

text \<open>
  C8. For every raw assignee name that is empty or consists of white space only, key
  generation yields no keys and no tokens, and the matcher returns no member: the outcome
  is Unresolved, whatever the index. And for every roster, the empty string is no key of
  the key map of the roster index.
\<close>

theorem blank_name_unresolved:
  assumes "list_all isWhiteSpace name"
  shows "generateAssigneeKeys U name = \<lparr> keys = [], tokens = [] \<rparr>
     \<and> findMemberMatches U name index = []
     \<and> evaluateAssignee U index name = \<lparr> users = [], candidates = [], needsReview = True \<rparr>
     \<and> outcome (evaluateAssignee U index name) = Unresolved
     \<and> keyMap (buildMemberIndex U members) [] = None"
proof -
  have k: "generateAssigneeKeys U name = \<lparr> keys = [], tokens = [] \<rparr>"
    using assms by (rule generateAssigneeKeys_blank)
  then have f: "findMemberMatches U name index = []"
    by (simp add: findMemberMatches_def)
  then have e: "evaluateAssignee U index name = \<lparr> users = [], candidates = [], needsReview = True \<rparr>"
    by (simp add: evaluateAssignee_def)
  then have "outcome (evaluateAssignee U index name) = Unresolved"
    by (simp add: outcome_def)
  with k f e show ?thesis by (simp add: keyMap_build_empty)
qed

theorem blank_name_unresolved_witness:
  "list_all isWhiteSpace [0x20, 0x09, 0xA0]
   \<and> generateAssigneeKeys latinUnicode [0x20, 0x09, 0xA0] = \<lparr> keys = [], tokens = [] \<rparr>
   \<and> outcome (evaluateAssignee latinUnicode
         (buildMemberIndex latinUnicode [exMember ''1'' ''Ann Lee'']) [0x20, 0x09, 0xA0]) = Unresolved
   \<and> keyMap (buildMemberIndex latinUnicode [exMember ''1'' ''Ann Lee'']) [] = None"
proof -
  have h: "list_all isWhiteSpace [0x20, 0x09, 0xA0]" by (simp add: isWhiteSpace_def)
  from h blank_name_unresolved [OF h, of latinUnicode
      "buildMemberIndex latinUnicode [exMember ''1'' ''Ann Lee'']" "[exMember ''1'' ''Ann Lee'']"]
  show ?thesis by blast
qed

text \<open>
  C5. When two members of the roster with different ids have display names that
  normalize to the same key, a raw name that generates this key is Ambiguous, and both
  ids are among the candidates. And in the list of members that the matcher returns for
  any name and any index, hence in the users and in the candidates of every outcome, no
  id occurs twice: members are compared by id.
\<close>

theorem same_key_ambiguous:
  assumes "m1 \<in> set members" and "m2 \<in> set members" and "id' m1 \<noteq> id' m2"
    and "normalizeKey U (displayName m1) = k" and "normalizeKey U (displayName m2) = k"
    and "k \<in> set (keys (generateAssigneeKeys U raw))"
  shows "outcome (evaluateAssignee U (buildMemberIndex U members) raw)
       = Ambiguous (map (\<lambda>x. spreadMember x raw) (findMemberMatches U raw (buildMemberIndex U members)))
     \<and> id' m1 \<in> id' ` set (findMemberMatches U raw (buildMemberIndex U members))
     \<and> id' m2 \<in> id' ` set (findMemberMatches U raw (buildMemberIndex U members))
     \<and> distinct (map id' (findMemberMatches U name index))
     \<and> distinct (map id' (users (evaluateAssignee U index name)))
     \<and> distinct (map id' (candidates (evaluateAssignee U index name)))"
proof -
  let ?idx = "buildMemberIndex U members"
  let ?ks = "keys (generateAssigneeKeys U raw)"
  let ?ms = "fold (matchKey ?idx) ?ks []"
  have "k \<noteq> []" using assms(6) by (rule nonEmpty_assigneeKeys)
  with assms(4,5) have h: "hasKey U k m1" "hasKey U k m2"
    by (simp_all add: hasKey_def displayName_key)
  with assms(1,2) have in1: "m1 \<in> set (filter (hasKey U k) members)"
    and in2: "m2 \<in> set (filter (hasKey U k) members)" by simp_all
  then have ne: "filter (hasKey U k) members \<noteq> []" by (metis empty_iff empty_set)
  then have km: "keyMap ?idx k = Some (filter (hasKey U k) members)" by (simp add: keyMap_build)
  have sub: "id' ` set (filter (hasKey U k) members) \<subseteq> id' ` set ?ms"
    using assms(6) km by (rule ids_found)
  with in1 in2 have i1: "id' m1 \<in> id' ` set ?ms" and i2: "id' m2 \<in> id' ` set ?ms" by blast+
  then have "?ms \<noteq> []" by auto
  then have f: "findMemberMatches U raw ?idx = ?ms" by (simp add: findMemberMatches_def Let_def)
  have "length ?ms > 1"
  proof (rule ccontr)
    assume "\<not> length ?ms > 1"
    with \<open>?ms \<noteq> []\<close> obtain x where "?ms = [x]" by (cases ?ms) auto
    with i1 i2 assms(3) show False by auto
  qed
  with f have "outcome (evaluateAssignee U ?idx raw) = Ambiguous (map (\<lambda>x. spreadMember x raw) ?ms)"
    by (auto simp: evaluateAssignee_cases Let_def outcome_def)
  with f i1 i2 show ?thesis
    using distinct_findMemberMatches [of U name index] distinct_evaluateAssignee [of U index name]
    by simp
qed

theorem same_key_ambiguous_witness:
  "exMember ''1'' ''Ann Lee'' \<in> set [exMember ''1'' ''Ann Lee'', exMember ''2'' ''ANN  lee'']
   \<and> id' (exMember ''1'' ''Ann Lee'') \<noteq> id' (exMember ''2'' ''ANN  lee'')
   \<and> normalizeKey latinUnicode (displayName (exMember ''1'' ''Ann Lee'')) = ustr ''ann lee''
   \<and> normalizeKey latinUnicode (displayName (exMember ''2'' ''ANN  lee'')) = ustr ''ann lee''
   \<and> ustr ''ann lee'' \<in> set (keys (generateAssigneeKeys latinUnicode (ustr ''Ann Lee'')))
   \<and> outcome (evaluateAssignee latinUnicode
         (buildMemberIndex latinUnicode [exMember ''1'' ''Ann Lee'', exMember ''2'' ''ANN  lee''])
         (ustr ''Ann Lee''))
       = Ambiguous (map (\<lambda>x. spreadMember x (ustr ''Ann Lee''))
           (findMemberMatches latinUnicode (ustr ''Ann Lee'')
             (buildMemberIndex latinUnicode [exMember ''1'' ''Ann Lee'', exMember ''2'' ''ANN  lee''])))"
proof -
  have 1: "exMember ''1'' ''Ann Lee'' \<in> set [exMember ''1'' ''Ann Lee'', exMember ''2'' ''ANN  lee'']"
    by simp
  have 2: "exMember ''2'' ''ANN  lee'' \<in> set [exMember ''1'' ''Ann Lee'', exMember ''2'' ''ANN  lee'']"
    by simp
  have 3: "id' (exMember ''1'' ''Ann Lee'') \<noteq> id' (exMember ''2'' ''ANN  lee'')"
    by (simp add: example_defs ustr_def)
  have 4: "normalizeKey latinUnicode (displayName (exMember ''1'' ''Ann Lee'')) = ustr ''ann lee''"
    by (simp add: example_defs normalizeKey_def string_defs latin_defs)
  have 5: "normalizeKey latinUnicode (displayName (exMember ''2'' ''ANN  lee'')) = ustr ''ann lee''"
    by (simp add: example_defs normalizeKey_def string_defs latin_defs)
  have 6: "ustr ''ann lee'' \<in> set (keys (generateAssigneeKeys latinUnicode (ustr ''Ann Lee'')))"
    by (simp add: key_defs string_defs latin_defs)
  from 1 3 4 5 6 same_key_ambiguous [OF 1 2 3 4 5 6] show ?thesis by blast
qed

text \<open>
  C1 (amended). For every raw assignee name whose generated keys find no member in the key
  map but whose token list is not empty, the matcher falls back to scanning the entries of
  the index, an entry qualifying iff every token is a substring of its \<open>searchText\<close>, and
  returns the qualifying members, each id once. When no member qualifies the outcome is
  Unresolved; when the qualifying members have one id, the outcome is Resolved with the
  member of that id, as on the path of the exact keys; when they have several ids, the
  outcome is Ambiguous with them as candidates.
\<close>

theorem fallback_scan:
  assumes "\<forall>k \<in> set (keys (generateAssigneeKeys U name)). keyMap index k = None \<or> keyMap index k = Some []"
    and "tokens (generateAssigneeKeys U name) \<noteq> []"
  shows "findMemberMatches U name index = dedupById (qualifying U name index)
     \<and> qualifying U name index
         = map member (filter (qualifies (tokens (generateAssigneeKeys U name))) (entries index))
     \<and> (\<forall>toks e. qualifies toks e \<longleftrightarrow> (\<forall>t \<in> set toks. \<exists>p q. searchText e = p @ t @ q))
     \<and> (qualifying U name index = [] \<longrightarrow> outcome (evaluateAssignee U index name) = Unresolved)
     \<and> (\<forall>i. id' ` set (qualifying U name index) = {i} \<longrightarrow>
           (\<exists>m \<in> set (qualifying U name index). id' m = i
              \<and> outcome (evaluateAssignee U index name) = Resolved [spreadMember m name]))
     \<and> ((\<exists>a \<in> set (qualifying U name index). \<exists>b \<in> set (qualifying U name index). id' a \<noteq> id' b) \<longrightarrow>
           outcome (evaluateAssignee U index name)
             = Ambiguous (map (\<lambda>x. spreadMember x name) (dedupById (qualifying U name index))))"
proof -
  let ?qs = "qualifying U name index"
  have f: "findMemberMatches U name index = dedupById ?qs"
    using assms by (rule findMemberMatches_fallback)
  have none: "?qs = [] \<longrightarrow> outcome (evaluateAssignee U index name) = Unresolved"
    using f by (auto simp: evaluateAssignee_def dedupById_def outcome_def)
  have one: "\<forall>i. id' ` set ?qs = {i} \<longrightarrow>
           (\<exists>m \<in> set ?qs. id' m = i
              \<and> outcome (evaluateAssignee U index name) = Resolved [spreadMember m name])"
  proof (intro allI impI)
    fix i assume "id' ` set ?qs = {i}"
    then obtain m where m: "m \<in> set ?qs" "id' m = i" "dedupById ?qs = [m]"
      using dedupById_single by blast
    with f have "outcome (evaluateAssignee U index name) = Resolved [spreadMember m name]"
      by (simp add: evaluateAssignee_def outcome_def)
    with m show "\<exists>m \<in> set ?qs. id' m = i
              \<and> outcome (evaluateAssignee U index name) = Resolved [spreadMember m name]" by blast
  qed
  have many: "(\<exists>a \<in> set ?qs. \<exists>b \<in> set ?qs. id' a \<noteq> id' b) \<longrightarrow>
           outcome (evaluateAssignee U index name)
             = Ambiguous (map (\<lambda>x. spreadMember x name) (dedupById ?qs))"
  proof
    assume "\<exists>a \<in> set ?qs. \<exists>b \<in> set ?qs. id' a \<noteq> id' b"
    then have "length (dedupById ?qs) > 1" using dedupById_many by blast
    with f show "outcome (evaluateAssignee U index name)
             = Ambiguous (map (\<lambda>x. spreadMember x name) (dedupById ?qs))"
      by (auto simp: evaluateAssignee_cases Let_def outcome_def)
  qed
  have q: "\<forall>toks e. qualifies toks e \<longleftrightarrow> (\<forall>t \<in> set toks. \<exists>p q. searchText e = p @ t @ q)"
    by (simp add: qualifies_iff)
  have d: "?qs = map member (filter (qualifies (tokens (generateAssigneeKeys U name))) (entries index))"
    by (simp add: qualifying_def)
  from f d q none one many show ?thesis by blast
qed

theorem fallback_scan_witness:
  "keys (generateAssigneeKeys latinUnicode (ustr ''Rob Kim'')) = [ustr ''rob kim'', ustr ''kim rob'']
   \<and> keyMap (buildMemberIndex latinUnicode [exMember ''1'' ''Ann Lee'', exMember ''4'' ''Robert Kimball''])
        (ustr ''rob kim'') = None
   \<and> keyMap (buildMemberIndex latinUnicode [exMember ''1'' ''Ann Lee'', exMember ''4'' ''Robert Kimball''])
        (ustr ''kim rob'') = None
   \<and> tokens (generateAssigneeKeys latinUnicode (ustr ''Rob Kim'')) \<noteq> []
   \<and> findMemberMatches latinUnicode (ustr ''Rob Kim'')
        (buildMemberIndex latinUnicode [exMember ''1'' ''Ann Lee'', exMember ''4'' ''Robert Kimball''])
      = dedupById (qualifying latinUnicode (ustr ''Rob Kim'')
          (buildMemberIndex latinUnicode [exMember ''1'' ''Ann Lee'', exMember ''4'' ''Robert Kimball'']))"
proof -
  let ?idx = "buildMemberIndex latinUnicode [exMember ''1'' ''Ann Lee'', exMember ''4'' ''Robert Kimball'']"
  have k: "generateAssigneeKeys latinUnicode (ustr ''Rob Kim'')
    = \<lparr> keys = [ustr ''rob kim'', ustr ''kim rob''], tokens = [ustr ''rob'', ustr ''kim''] \<rparr>"
    by (simp add: key_defs string_defs latin_defs)
  have a: "keyMap ?idx (ustr ''rob kim'') = None"
    by (simp add: index_defs key_defs string_defs latin_defs example_defs)
  have b: "keyMap ?idx (ustr ''kim rob'') = None"
    by (simp add: index_defs key_defs string_defs latin_defs example_defs)
  have 1: "\<forall>k \<in> set (keys (generateAssigneeKeys latinUnicode (ustr ''Rob Kim''))).
      keyMap ?idx k = None \<or> keyMap ?idx k = Some []"
    unfolding k using a b by simp
  have 2: "tokens (generateAssigneeKeys latinUnicode (ustr ''Rob Kim'')) \<noteq> []"
    unfolding k by simp
  from k a b 2 fallback_scan [OF 1 2] show ?thesis by simp
qed

text \<open>
  The claim as it was stated fails: for the roster of Robert Kimball alone and the raw
  name \<open>Rob Kim\<close> no key finds a member, the tokens are \<open>rob\<close> and \<open>kim\<close>, exactly one
  member qualifies, and the outcome is Resolved with that member, not Ambiguous.
\<close>

theorem fallback_single_counterexample:
  "fold (matchKey (buildMemberIndex latinUnicode [exMember ''4'' ''Robert Kimball'']))
        (keys (generateAssigneeKeys latinUnicode (ustr ''Rob Kim''))) [] = []
   \<and> tokens (generateAssigneeKeys latinUnicode (ustr ''Rob Kim'')) = [ustr ''rob'', ustr ''kim'']
   \<and> qualifying latinUnicode (ustr ''Rob Kim'') (buildMemberIndex latinUnicode [exMember ''4'' ''Robert Kimball''])
       = [exMember ''4'' ''Robert Kimball'']
   \<and> outcome (evaluateAssignee latinUnicode (buildMemberIndex latinUnicode [exMember ''4'' ''Robert Kimball''])
         (ustr ''Rob Kim''))
       = Resolved [spreadMember (exMember ''4'' ''Robert Kimball'') (ustr ''Rob Kim'')]
   \<and> outcome (evaluateAssignee latinUnicode (buildMemberIndex latinUnicode [exMember ''4'' ''Robert Kimball''])
         (ustr ''Rob Kim''))
       \<noteq> Ambiguous [spreadMember (exMember ''4'' ''Robert Kimball'') (ustr ''Rob Kim'')]"
proof -
  let ?idx = "buildMemberIndex latinUnicode [exMember ''4'' ''Robert Kimball'']"
  have k: "generateAssigneeKeys latinUnicode (ustr ''Rob Kim'')
    = \<lparr> keys = [ustr ''rob kim'', ustr ''kim rob''], tokens = [ustr ''rob'', ustr ''kim''] \<rparr>"
    by (simp add: key_defs string_defs latin_defs)
  have 1: "fold (matchKey ?idx) (keys (generateAssigneeKeys latinUnicode (ustr ''Rob Kim''))) [] = []"
    unfolding k by (simp add: matchKey_def index_defs key_defs string_defs latin_defs example_defs)
  have 2: "qualifying latinUnicode (ustr ''Rob Kim'') ?idx = [exMember ''4'' ''Robert Kimball'']"
    unfolding qualifying_def k
    by (simp add: qualifies_def index_defs key_defs string_defs latin_defs example_defs)
  have "findMemberMatches latinUnicode (ustr ''Rob Kim'') ?idx = [exMember ''4'' ''Robert Kimball'']"
    using 1 2 by (simp add: findMemberMatches_def Let_def k fold_matchEntry qualifying_def pushUnique_def)
  then have 3: "outcome (evaluateAssignee latinUnicode ?idx (ustr ''Rob Kim''))
       = Resolved [spreadMember (exMember ''4'' ''Robert Kimball'') (ustr ''Rob Kim'')]"
    by (simp add: evaluateAssignee_def outcome_def)
  from 1 2 3 k show ?thesis by simp
qed

text \<open>
  C2 (amended). For a task that names several assignees, each name is matched on its own,
  and the merged result satisfies: \<open>matchedUsers\<close> is the union of the users of the
  Resolved names, \<open>failed\<close> contains exactly the names whose outcome is Ambiguous or
  Unresolved (not only those that are Unresolved), \<open>candidates\<close> is the union of the
  candidates of the Ambiguous names, and \<open>needsReview\<close> is true iff some name is
  Ambiguous or Unresolved. The task gets each of the three lists that is not empty, and
  the flag when it is true.
\<close>

theorem merged_assignees:
  assumes "assignees task = Some names" and "names \<noteq> []"
  shows "set (matchedUsers (mergeAssignees U index names))
         = (\<Union>n \<in> set names. set (resolvedUsers (outcome (evaluateAssignee U index n))))
     \<and> failed (mergeAssignees U index names)
         = filter (\<lambda>n. \<not> isResolved (outcome (evaluateAssignee U index n))) names
     \<and> set (mergedCandidates (mergeAssignees U index names))
         = (\<Union>n \<in> set names. set (ambiguousCandidates (outcome (evaluateAssignee U index n))))
     \<and> mergedNeedsReview (mergeAssignees U index names)
         = list_ex (\<lambda>n. \<not> isResolved (outcome (evaluateAssignee U index n))) names
     \<and> assigneeUsers (processAssignees U index task)
         = (if matchedUsers (mergeAssignees U index names) = [] then None
            else Some (matchedUsers (mergeAssignees U index names)))
     \<and> assigneeLookupFailedList (processAssignees U index task)
         = (if failed (mergeAssignees U index names) = [] then None
            else Some (failed (mergeAssignees U index names)))
     \<and> assigneeCandidates (processAssignees U index task)
         = (if mergedCandidates (mergeAssignees U index names) = [] then None
            else Some (mergedCandidates (mergeAssignees U index names)))
     \<and> assigneeNeedsReview (processAssignees U index task)
         = (if mergedNeedsReview (mergeAssignees U index names) then Some True else None)"
proof -
  let ?r = "mergeAssignees U index names"
  have m: "set (matchedUsers ?r)
         = (\<Union>n \<in> set names. set (resolvedUsers (outcome (evaluateAssignee U index n))))"
    by (simp add: mergeAssignees_eq users_outcome)
  have f: "failed ?r = filter (\<lambda>n. \<not> isResolved (outcome (evaluateAssignee U index n))) names"
    by (simp add: mergeAssignees_eq isResolved_outcome)
  have c: "set (mergedCandidates ?r)
         = (\<Union>n \<in> set names. set (ambiguousCandidates (outcome (evaluateAssignee U index n))))"
    by (simp add: mergeAssignees_eq candidates_outcome)
  have n: "mergedNeedsReview ?r = list_ex (\<lambda>n. \<not> isResolved (outcome (evaluateAssignee U index n))) names"
    by (simp add: mergeAssignees_eq needsReview_outcome)
  have o: "assigneeUsers (processAssignees U index task)
         = (if matchedUsers ?r = [] then None else Some (matchedUsers ?r))
     \<and> assigneeLookupFailedList (processAssignees U index task)
         = (if failed ?r = [] then None else Some (failed ?r))
     \<and> assigneeCandidates (processAssignees U index task)
         = (if mergedCandidates ?r = [] then None else Some (mergedCandidates ?r))
     \<and> assigneeNeedsReview (processAssignees U index task)
         = (if mergedNeedsReview ?r then Some True else None)"
    using assms by (simp add: processAssignees_def Let_def someIfNonEmpty_def spreadTask_def)
  show ?thesis using o unfolding m f c n by simp
qed

theorem merged_assignees_witness:
  "assignees (exTask \<lparr> assignees := Some [ustr ''Ann Lee'', ustr ''Bob Kim''] \<rparr>)
     = Some [ustr ''Ann Lee'', ustr ''Bob Kim'']
   \<and> [ustr ''Ann Lee'', ustr ''Bob Kim''] \<noteq> []
   \<and> failed (mergeAssignees latinUnicode (buildMemberIndex latinUnicode [exMember ''1'' ''Ann Lee''])
        [ustr ''Ann Lee'', ustr ''Bob Kim''])
      = filter (\<lambda>n. \<not> isResolved (outcome (evaluateAssignee latinUnicode
                  (buildMemberIndex latinUnicode [exMember ''1'' ''Ann Lee'']) n)))
          [ustr ''Ann Lee'', ustr ''Bob Kim'']
   \<and> mergeAssignees latinUnicode (buildMemberIndex latinUnicode [exMember ''1'' ''Ann Lee''])
        [ustr ''Ann Lee'', ustr ''Bob Kim'']
      = \<lparr> matchedUsers = [spreadMember (exMember ''1'' ''Ann Lee'') (ustr ''Ann Lee'')],
          failed = [ustr ''Bob Kim''], mergedCandidates = [], mergedNeedsReview = True \<rparr>"
proof -
  let ?idx = "buildMemberIndex latinUnicode [exMember ''1'' ''Ann Lee'']"
  have 1: "assignees (exTask \<lparr> assignees := Some [ustr ''Ann Lee'', ustr ''Bob Kim''] \<rparr>)
     = Some [ustr ''Ann Lee'', ustr ''Bob Kim'']" by simp
  have 2: "[ustr ''Ann Lee'', ustr ''Bob Kim''] \<noteq> []" by simp
  have a: "evaluateAssignee latinUnicode ?idx (ustr ''Ann Lee'')
    = \<lparr> users = [spreadMember (exMember ''1'' ''Ann Lee'') (ustr ''Ann Lee'')], candidates = [],
        needsReview = False \<rparr>"
    by (simp add: match_defs index_defs key_defs string_defs latin_defs example_defs)
  have b: "evaluateAssignee latinUnicode ?idx (ustr ''Bob Kim'')
    = \<lparr> users = [], candidates = [], needsReview = True \<rparr>"
    by (simp add: match_defs index_defs key_defs string_defs latin_defs example_defs)
  have 3: "mergeAssignees latinUnicode ?idx [ustr ''Ann Lee'', ustr ''Bob Kim'']
      = \<lparr> matchedUsers = [spreadMember (exMember ''1'' ''Ann Lee'') (ustr ''Ann Lee'')],
          failed = [ustr ''Bob Kim''], mergedCandidates = [], mergedNeedsReview = True \<rparr>"
    by (simp add: mergeAssignees_def mergeStep_def a b)
  from 1 2 3 merged_assignees [OF 1 2, of latinUnicode ?idx] show ?thesis by blast
qed

text \<open>
  The claim as it was stated fails: with two members named Ann Lee in the roster, the name
  \<open>Ann Lee\<close> is Ambiguous, not Unresolved, and it is in the list of the failed names.
\<close>

theorem failed_names_counterexample:
  "outcome (evaluateAssignee latinUnicode
       (buildMemberIndex latinUnicode [exMember ''1'' ''Ann Lee'', exMember ''2'' ''ANN  lee''])
       (ustr ''Ann Lee''))
     = Ambiguous [spreadMember (exMember ''1'' ''Ann Lee'') (ustr ''Ann Lee''),
                  spreadMember (exMember ''2'' ''ANN  lee'') (ustr ''Ann Lee'')]
   \<and> outcome (evaluateAssignee latinUnicode
       (buildMemberIndex latinUnicode [exMember ''1'' ''Ann Lee'', exMember ''2'' ''ANN  lee''])
       (ustr ''Ann Lee'')) \<noteq> Unresolved
   \<and> failed (mergeAssignees latinUnicode
       (buildMemberIndex latinUnicode [exMember ''1'' ''Ann Lee'', exMember ''2'' ''ANN  lee''])
       [ustr ''Ann Lee'']) = [ustr ''Ann Lee'']"
proof -
  let ?idx = "buildMemberIndex latinUnicode [exMember ''1'' ''Ann Lee'', exMember ''2'' ''ANN  lee'']"
  have a: "evaluateAssignee latinUnicode ?idx (ustr ''Ann Lee'')
    = \<lparr> users = [],
        candidates = [spreadMember (exMember ''1'' ''Ann Lee'') (ustr ''Ann Lee''),
                      spreadMember (exMember ''2'' ''ANN  lee'') (ustr ''Ann Lee'')],
        needsReview = True \<rparr>"
    by (simp add: match_defs index_defs key_defs string_defs latin_defs example_defs)
  show ?thesis by (simp add: a outcome_def mergeAssignees_def mergeStep_def)
qed

text \<open>
  C4 (amended). When a member of the roster has a display name that normalizes to
  \<open>ann lee\<close>, and no other member of the roster has \<open>ann lee\<close> or \<open>lee ann\<close> among its
  keys, both the raw name \<open>Ann Lee\<close> and the form \<open>Lee, Ann\<close> are Resolved with exactly
  that member; \<open>ann lee\<close> is the normalized raw name in the first case and the key of the
  swapped parts in the second.
\<close>

theorem ann_lee_resolved:
  assumes "unicode_ok U"
    and "m \<in> set members"
    and "normalizeKey U (displayName m) = ustr ''ann lee''"
    and "\<forall>x \<in> set members. x \<noteq> m \<longrightarrow>
           ustr ''ann lee'' \<notin> set (generateMemberKeys U x) \<and> ustr ''lee ann'' \<notin> set (generateMemberKeys U x)"
  shows "outcome (evaluateAssignee U (buildMemberIndex U members) (ustr ''Ann Lee''))
       = Resolved [spreadMember m (ustr ''Ann Lee'')]
     \<and> outcome (evaluateAssignee U (buildMemberIndex U members) (ustr ''Lee, Ann''))
       = Resolved [spreadMember m (ustr ''Lee, Ann'')]
     \<and> normalizeKey U (ustr ''Ann Lee'') = ustr ''ann lee''
     \<and> addCommaKeys U (ustr ''Lee, Ann'') [] = [ustr ''ann lee'', ustr ''lee ann'']"
proof -
  have ne: "ustr ''ann lee'' \<noteq> []" by (simp add: ustr_def)
  with assms(3) have h: "hasKey U (ustr ''ann lee'') m" by (simp add: hasKey_def displayName_key)
  from assms(4) have o1: "\<forall>x \<in> set members. hasKey U (ustr ''ann lee'') x \<longrightarrow> x = m"
    and o2: "\<forall>x \<in> set members. hasKey U (ustr ''lee ann'') x \<longrightarrow> x = m"
    by (auto simp: hasKey_def)
  have a: "outcome (evaluateAssignee U (buildMemberIndex U members) (ustr ''Ann Lee''))
       = Resolved [spreadMember m (ustr ''Ann Lee'')]"
    using assms(2) _ o1 o2
  proof (rule resolved_by_two_keys)
    show "hasKey U (ustr ''ann lee'') m \<or> hasKey U (ustr ''lee ann'') m" using h by simp
    show "keys (generateAssigneeKeys U (ustr ''Ann Lee'')) = [ustr ''ann lee'', ustr ''lee ann'']"
      by (simp add: keys_Ann_Lee [OF assms(1)])
  qed
  have b: "outcome (evaluateAssignee U (buildMemberIndex U members) (ustr ''Lee, Ann''))
       = Resolved [spreadMember m (ustr ''Lee, Ann'')]"
    using assms(2) _ o2 o1
  proof (rule resolved_by_two_keys)
    show "hasKey U (ustr ''lee ann'') m \<or> hasKey U (ustr ''ann lee'') m" using h by simp
    show "keys (generateAssigneeKeys U (ustr ''Lee, Ann'')) = [ustr ''lee ann'', ustr ''ann lee'']"
      by (simp add: keys_Lee_Ann [OF assms(1)])
  qed
  have c: "normalizeKey U (ustr ''Ann Lee'') = ustr ''ann lee''"
    by (simp add: string_defs normalizeKey_asciiKey [OF assms(1)] ascii_defs)
  from a b c swapped_Lee_Ann [OF assms(1)] show ?thesis by simp
qed

theorem ann_lee_resolved_witness:
  "unicode_ok latinUnicode
   \<and> exMember ''1'' ''Ann Lee'' \<in> set [exMember ''1'' ''Ann Lee'', exMember ''4'' ''Robert Kimball'']
   \<and> normalizeKey latinUnicode (displayName (exMember ''1'' ''Ann Lee'')) = ustr ''ann lee''
   \<and> generateMemberKeys latinUnicode (exMember ''4'' ''Robert Kimball'') = [ustr ''robert kimball'']
   \<and> outcome (evaluateAssignee latinUnicode
         (buildMemberIndex latinUnicode [exMember ''1'' ''Ann Lee'', exMember ''4'' ''Robert Kimball''])
         (ustr ''Lee, Ann''))
       = Resolved [spreadMember (exMember ''1'' ''Ann Lee'') (ustr ''Lee, Ann'')]"
proof -
  have 2: "exMember ''1'' ''Ann Lee'' \<in> set [exMember ''1'' ''Ann Lee'', exMember ''4'' ''Robert Kimball'']"
    by simp
  have 3: "normalizeKey latinUnicode (displayName (exMember ''1'' ''Ann Lee'')) = ustr ''ann lee''"
    by (simp add: example_defs normalizeKey_def string_defs latin_defs)
  have k: "generateMemberKeys latinUnicode (exMember ''4'' ''Robert Kimball'') = [ustr ''robert kimball'']"
    by (simp add: example_defs key_defs string_defs latin_defs)
  have 4: "\<forall>x \<in> set [exMember ''1'' ''Ann Lee'', exMember ''4'' ''Robert Kimball''].
         x \<noteq> exMember ''1'' ''Ann Lee'' \<longrightarrow>
           ustr ''ann lee'' \<notin> set (generateMemberKeys latinUnicode x)
           \<and> ustr ''lee ann'' \<notin> set (generateMemberKeys latinUnicode x)"
    by (simp add: k) (simp add: ustr_def)
  from unicode_ok_latin 2 3 k ann_lee_resolved [OF unicode_ok_latin 2 3 4] show ?thesis by blast
qed

text \<open>
  The claim as it was stated fails: in the roster of Ann Lee and Lee Ann exactly one
  display name normalizes to \<open>ann lee\<close>, yet the raw name \<open>Ann Lee\<close> is Ambiguous, since
  its token keys are \<open>ann lee\<close> and \<open>lee ann\<close>.
\<close>

theorem ann_lee_counterexample:
  "normalizeKey latinUnicode (displayName (exMember ''1'' ''Ann Lee'')) = ustr ''ann lee''
   \<and> normalizeKey latinUnicode (displayName (exMember ''3'' ''Lee Ann'')) \<noteq> ustr ''ann lee''
   \<and> outcome (evaluateAssignee latinUnicode
         (buildMemberIndex latinUnicode [exMember ''1'' ''Ann Lee'', exMember ''3'' ''Lee Ann''])
         (ustr ''Ann Lee''))
       = Ambiguous [spreadMember (exMember ''1'' ''Ann Lee'') (ustr ''Ann Lee''),
                    spreadMember (exMember ''3'' ''Lee Ann'') (ustr ''Ann Lee'')]"
proof -
  have 1: "normalizeKey latinUnicode (displayName (exMember ''1'' ''Ann Lee'')) = ustr ''ann lee''"
    by (simp add: example_defs normalizeKey_def string_defs latin_defs)
  have 2: "normalizeKey latinUnicode (displayName (exMember ''3'' ''Lee Ann'')) \<noteq> ustr ''ann lee''"
    by (simp add: example_defs normalizeKey_def string_defs latin_defs)
  have 3: "evaluateAssignee latinUnicode
         (buildMemberIndex latinUnicode [exMember ''1'' ''Ann Lee'', exMember ''3'' ''Lee Ann''])
         (ustr ''Ann Lee'')
    = \<lparr> users = [],
        candidates = [spreadMember (exMember ''1'' ''Ann Lee'') (ustr ''Ann Lee''),
                      spreadMember (exMember ''3'' ''Lee Ann'') (ustr ''Ann Lee'')],
        needsReview = True \<rparr>"
    by (simp add: match_defs index_defs key_defs string_defs latin_defs example_defs)
  from 1 2 show ?thesis by (simp add: 3 outcome_def)
qed

section \<open>The bucket matcher\<close>

subsection \<open>The lookup table\<close>

lemma map_of_fold_setBucket:
  "map_of (fold (setBucket U) bs t) k =
     (if filter (sameLower U k) bs = [] then map_of t k else Some (last (filter (sameLower U k) bs)))"
proof (induction bs arbitrary: t)
  case Nil
  then show ?case by simp
next
  case (Cons b bs)
  show ?case
    by (simp add: Cons.IH) (auto simp: setBucket_def sameLower_def update_conv')
qed

lemma map_of_bucketLookup:
  "map_of (buildBucketLookup U buckets) k =
     (if filter (sameLower U k) buckets = [] then None else Some (last (filter (sameLower U k) buckets)))"
  by (simp add: buildBucketLookup_def map_of_fold_setBucket)


subsection \<open>The fuzzy pass\<close>






subsection \<open>From the mapping to the tasks\<close>

lemma map_of_fold_mapBucketName:
  "map_of (fold (mapBucketName U t) names mapping) l =
     (if l \<in> set names then Some (resolveBucket U t l) else map_of mapping l)"
  by (induction names arbitrary: mapping) (auto simp: mapBucketName_def update_conv')

lemma mappedBucket_build:
  "l \<in> set names \<Longrightarrow> mappedBucket (buildBucketMapping U t names) l = resolveBucket U t l"
  by (simp add: mappedBucket_def buildBucketMapping_def map_of_fold_mapBucketName)

lemma set_fold_addBucketName:
  "set (fold addBucketName tasks names) =
     set names \<union> {orEmpty (bucketName task) | task. task \<in> set tasks \<and> truthy (bucketName task)}"
  by (induction tasks arbitrary: names) (auto simp: addBucketName_def set_setAdd)

lemma in_uniqueBucketNames:
  "task \<in> set tasks \<Longrightarrow> truthy (bucketName task) \<Longrightarrow>
   orEmpty (bucketName task) \<in> set (uniqueBucketNames tasks)"
  by (auto simp: uniqueBucketNames_def set_fold_addBucketName)

lemma fold_push: "fold (\<lambda>x acc. acc @ [f x]) xs acc = acc @ map f xs"
  by (induction xs arbitrary: acc) simp_all

lemma enrichTask_enrichWith:
  assumes "task \<in> set tasks"
  shows "enrichTask (buildBucketMapping U (buildBucketLookup U buckets) (uniqueBucketNames tasks)) task
    = enrichWith U buckets task"
proof (cases "truthy (bucketName task)")
  case True
  with assms have "orEmpty (bucketName task) \<in> set (uniqueBucketNames tasks)"
    by (simp add: in_uniqueBucketNames)
  then show ?thesis
    by (simp add: enrichTask_def enrichWith_def mappedBucket_build)
next
  case False
  then show ?thesis by (simp add: enrichTask_def enrichWith_def)
qed

lemma lookupBuckets_map: "lookupBuckets U tasks buckets = map (enrichWith U buckets) tasks"
  by (simp add: lookupBuckets_def Let_def fold_push enrichTask_enrichWith)

lemma lookupAssignees_map:
  "lookupAssignees U tasks members = map (processAssignees U (buildMemberIndex U members)) tasks"
  by (simp add: lookupAssignees_def Let_def fold_push)

section \<open>Claims about the bucket matcher\<close>

lemmas bucket_defs = lookupBuckets_def buildBucketLookup_def setBucket_def uniqueBucketNames_def
  addBucketName_def buildBucketMapping_def mapBucketName_def mappedBucket_def enrichTask_def
  resolveBucket_def tableGet_def objectPrototypeNames_def spreadBucket_def spreadInherited_def
  spreadTask_def


lemma lowerCase_ascii:
  "unicode_ok U \<Longrightarrow> list_all isAscii s \<Longrightarrow> toLowerCase U s = map asciiLower s"
  by (simp add: unicode_ok_def)

lemma nth_lookupBuckets:
  "i < length tasks \<Longrightarrow> lookupBuckets U tasks buckets ! i = enrichWith U buckets (tasks ! i)"
  by (simp add: lookupBuckets_map)

lemma tableGet_bucketLookup:
  "tableGet (buildBucketLookup U buckets) k =
     (if filter (sameLower U k) buckets \<noteq> [] then GotBucket (last (filter (sameLower U k) buckets))
      else if k \<in> set objectPrototypeNames then GotInherited else GotUndefined)"
  by (simp add: tableGet_def map_of_bucketLookup)

text \<open>
  C6. The bucket matcher builds a map from lower-cased names to buckets in which, of the
  buckets of the snapshot that share a lower-cased name, the last one is kept. A raw label
  that equals the name of a bucket of the snapshot up to case is an exact match: the task
  gets a \<open>bucketInfo\<close> with the id and the name of the bucket kept for that name, the
  label as \<open>originalName\<close>, and \<open>exactMatch\<close> true. In particular the label \<open>PLANNING\<close>
  matches the bucket \<open>Planning\<close>.
\<close>

theorem exact_bucket_match:
  assumes "unicode_ok U"
    and "b \<in> set buckets"
    and "toLowerCase U (bucket_name b) = toLowerCase U label"
    and "label \<noteq> []"
    and "i < length tasks"
    and "bucketName (tasks ! i) = Some label"
    and "w = last (filter (\<lambda>x. toLowerCase U (bucket_name x) = toLowerCase U label) buckets)"
  shows "map_of (buildBucketLookup U buckets) k
       = (if filter (\<lambda>x. toLowerCase U (bucket_name x) = k) buckets = [] then None
          else Some (last (filter (\<lambda>x. toLowerCase U (bucket_name x) = k) buckets)))
     \<and> tableGet (buildBucketLookup U buckets) (toLowerCase U label) = GotBucket w
     \<and> w \<in> set buckets \<and> toLowerCase U (bucket_name w) = toLowerCase U label
     \<and> lookupBuckets U tasks buckets ! i
       = (tasks ! i) \<lparr> bucketInfo :=
            Some \<lparr> info_id = Some (bucket_id w), info_name = Some (bucket_name w),
                   info_originalName = label, info_exactMatch = True \<rparr> \<rparr>
     \<and> lookupBuckets U [spreadTask (exTask \<lparr> bucketName := Some (ustr ''PLANNING'') \<rparr>)]
          [exBucket ''b1'' ''Planning'']
       = [(spreadTask (exTask \<lparr> bucketName := Some (ustr ''PLANNING'') \<rparr>))
            \<lparr> bucketInfo :=
                Some \<lparr> info_id = Some (ustr ''b1''), info_name = Some (ustr ''Planning''),
                       info_originalName = ustr ''PLANNING'', info_exactMatch = True \<rparr> \<rparr>]"
proof -
  let ?k = "toLowerCase U label"
  have s: "sameLower U k = (\<lambda>x. toLowerCase U (bucket_name x) = k)" for k
    by (simp add: sameLower_def fun_eq_iff)
  have m: "map_of (buildBucketLookup U buckets) k
       = (if filter (\<lambda>x. toLowerCase U (bucket_name x) = k) buckets = [] then None
          else Some (last (filter (\<lambda>x. toLowerCase U (bucket_name x) = k) buckets)))"
    by (simp add: map_of_bucketLookup s)
  from assms(2,3) have ne: "filter (sameLower U ?k) buckets \<noteq> []"
    by (auto simp: filter_empty_conv sameLower_def)
  then have g: "tableGet (buildBucketLookup U buckets) ?k = GotBucket w"
    by (simp add: tableGet_bucketLookup assms(7) s)
  from ne have "w \<in> set (filter (sameLower U ?k) buckets)"
    unfolding assms(7) s [symmetric] by (rule last_in_set)
  then have w: "w \<in> set buckets" "toLowerCase U (bucket_name w) = ?k"
    by (simp_all add: sameLower_def)
  have t: "truthy (bucketName (tasks ! i))" "orEmpty (bucketName (tasks ! i)) = label"
    using assms(4,6) by (simp_all add: truthy_def orEmpty_def)
  have e: "lookupBuckets U tasks buckets ! i
       = (tasks ! i) \<lparr> bucketInfo :=
            Some \<lparr> info_id = Some (bucket_id w), info_name = Some (bucket_name w),
                   info_originalName = label, info_exactMatch = True \<rparr> \<rparr>"
    using assms(5) by (simp add: nth_lookupBuckets enrichWith_def t resolveBucket_def g spreadBucket_def)
  have l: "toLowerCase U (ustr ''PLANNING'') = ustr ''planning''"
    "toLowerCase U (ustr ''Planning'') = ustr ''planning''"
    using assms(1) by (simp_all add: lowerCase_ascii ustr_def ascii_defs)
  have x: "lookupBuckets U [spreadTask (exTask \<lparr> bucketName := Some (ustr ''PLANNING'') \<rparr>)]
          [exBucket ''b1'' ''Planning'']
       = [(spreadTask (exTask \<lparr> bucketName := Some (ustr ''PLANNING'') \<rparr>))
            \<lparr> bucketInfo :=
                Some \<lparr> info_id = Some (ustr ''b1''), info_name = Some (ustr ''Planning''),
                       info_originalName = ustr ''PLANNING'', info_exactMatch = True \<rparr> \<rparr>]"
    by (simp add: bucket_defs example_defs l truthy_def orEmpty_def setAdd_def) (simp add: ustr_def)
  from m g w e x show ?thesis by blast
qed

theorem exact_bucket_match_witness:
  "unicode_ok latinUnicode
   \<and> exBucket ''b1'' ''Planning'' \<in> set [exBucket ''b1'' ''Planning'', exBucket ''b2'' ''planning'']
   \<and> toLowerCase latinUnicode (bucket_name (exBucket ''b1'' ''Planning''))
       = toLowerCase latinUnicode (ustr ''PLANNING'')
   \<and> ustr ''PLANNING'' \<noteq> []
   \<and> (0::nat) < length [spreadTask (exTask \<lparr> bucketName := Some (ustr ''PLANNING'') \<rparr>)]
   \<and> bucketName ([spreadTask (exTask \<lparr> bucketName := Some (ustr ''PLANNING'') \<rparr>)] ! 0)
       = Some (ustr ''PLANNING'')
   \<and> exBucket ''b2'' ''planning''
       = last (filter (\<lambda>x. toLowerCase latinUnicode (bucket_name x)
                         = toLowerCase latinUnicode (ustr ''PLANNING''))
                 [exBucket ''b1'' ''Planning'', exBucket ''b2'' ''planning''])
   \<and> lookupBuckets latinUnicode [spreadTask (exTask \<lparr> bucketName := Some (ustr ''PLANNING'') \<rparr>)]
        [exBucket ''b1'' ''Planning'', exBucket ''b2'' ''planning''] ! 0
       = ([spreadTask (exTask \<lparr> bucketName := Some (ustr ''PLANNING'') \<rparr>)] ! 0)
           \<lparr> bucketInfo :=
               Some \<lparr> info_id = Some (bucket_id (exBucket ''b2'' ''planning'')),
                      info_name = Some (bucket_name (exBucket ''b2'' ''planning'')),
                      info_originalName = ustr ''PLANNING'', info_exactMatch = True \<rparr> \<rparr>"
proof -
  have 2: "exBucket ''b1'' ''Planning'' \<in> set [exBucket ''b1'' ''Planning'', exBucket ''b2'' ''planning'']"
    by simp
  have 3: "toLowerCase latinUnicode (bucket_name (exBucket ''b1'' ''Planning''))
       = toLowerCase latinUnicode (ustr ''PLANNING'')"
    by (simp add: example_defs latin_defs ustr_def)
  have 4: "ustr ''PLANNING'' \<noteq> []" by (simp add: ustr_def)
  have 5: "(0::nat) < length [spreadTask (exTask \<lparr> bucketName := Some (ustr ''PLANNING'') \<rparr>)]"
    by simp
  have 6: "bucketName ([spreadTask (exTask \<lparr> bucketName := Some (ustr ''PLANNING'') \<rparr>)] ! 0)
       = Some (ustr ''PLANNING'')"
    by (simp add: spreadTask_def)
  have 7: "exBucket ''b2'' ''planning''
       = last (filter (\<lambda>x. toLowerCase latinUnicode (bucket_name x)
                         = toLowerCase latinUnicode (ustr ''PLANNING''))
                 [exBucket ''b1'' ''Planning'', exBucket ''b2'' ''planning''])"
    by (simp add: example_defs latin_defs ustr_def)
  from unicode_ok_latin 2 3 4 5 6 7 exact_bucket_match [OF unicode_ok_latin 2 3 4 5 6 7]
  show ?thesis by blast
qed



lemma empty_roster_unresolved:
  "findMemberMatches U name (buildMemberIndex U []) = []
   \<and> evaluateAssignee U (buildMemberIndex U []) name = \<lparr> users = [], candidates = [], needsReview = True \<rparr>
   \<and> outcome (evaluateAssignee U (buildMemberIndex U []) name) = Unresolved"
proof -
  have k: "fold (matchKey (buildMemberIndex U [])) ks [] = []" for ks
    by (rule fold_matchKey_none) (simp add: keyMap_build)
  have "findMemberMatches U name (buildMemberIndex U []) = []"
    by (simp add: findMemberMatches_def Let_def k entries_build)
  then show ?thesis by (simp add: evaluateAssignee_def outcome_def)
qed

lemma empty_snapshot_no_match:
  assumes "toLowerCase U label \<notin> set objectPrototypeNames"
  shows "resolveBucket U (buildBucketLookup U []) label = None"
  using assms
  by (simp add: resolveBucket_def tableGet_def buildBucketLookup_def fuzzyPass_def objectEntries_def)

text \<open>
  C9. Against an empty roster every name is Unresolved (\<open>empty_roster_unresolved\<close>), and
  against an empty bucket snapshot a label that does not lower-case to the name of an
  inherited method finds no bucket (\<open>empty_snapshot_no_match\<close>). The label
  \<open>constructor\<close>, however, finds the method that the empty lookup object inherits under
  this name: the exact branch is taken, and the task gets a \<open>bucketInfo\<close> without id and
  name and with \<open>exactMatch\<close> true instead of the flag \<open>bucketLookupFailed\<close>.
\<close>

theorem inherited_name_matched:
  assumes "unicode_ok U"
  shows "lookupBuckets U [spreadTask (exTask \<lparr> bucketName := Some (ustr ''constructor'') \<rparr>)] []
       = [(spreadTask (exTask \<lparr> bucketName := Some (ustr ''constructor'') \<rparr>))
            \<lparr> bucketInfo :=
                Some \<lparr> info_id = None, info_name = None,
                       info_originalName = ustr ''constructor'', info_exactMatch = True \<rparr> \<rparr>]
     \<and> bucketLookupFailed
         (lookupBuckets U [spreadTask (exTask \<lparr> bucketName := Some (ustr ''constructor'') \<rparr>)] [] ! 0)
       = None"
proof -
  have l: "toLowerCase U (ustr ''constructor'') = ustr ''constructor''"
    using assms by (simp add: lowerCase_ascii ustr_def ascii_defs)
  have r: "resolveBucket U (buildBucketLookup U []) (ustr ''constructor'') = Some (spreadInherited True)"
    by (simp add: resolveBucket_def l tableGet_def buildBucketLookup_def objectPrototypeNames_def)
  have e: "lookupBuckets U [spreadTask (exTask \<lparr> bucketName := Some (ustr ''constructor'') \<rparr>)] []
       = [(spreadTask (exTask \<lparr> bucketName := Some (ustr ''constructor'') \<rparr>))
            \<lparr> bucketInfo :=
                Some \<lparr> info_id = None, info_name = None,
                       info_originalName = ustr ''constructor'', info_exactMatch = True \<rparr> \<rparr>]"
    by (simp add: lookupBuckets_map enrichWith_def spreadTask_def example_defs truthy_def orEmpty_def r
        spreadInherited_def)
      (simp add: ustr_def)
  then show ?thesis by (simp add: spreadTask_def)
qed

theorem inherited_name_matched_witness:
  "unicode_ok latinUnicode
   \<and> bucketInfo
        (lookupBuckets latinUnicode
           [spreadTask (exTask \<lparr> bucketName := Some (ustr ''constructor'') \<rparr>)] [] ! 0)
      = Some \<lparr> info_id = None, info_name = None,
               info_originalName = ustr ''constructor'', info_exactMatch = True \<rparr>
   \<and> bucketLookupFailed
        (lookupBuckets latinUnicode
           [spreadTask (exTask \<lparr> bucketName := Some (ustr ''constructor'') \<rparr>)] [] ! 0)
      = None"
  using unicode_ok_latin inherited_name_matched [OF unicode_ok_latin] by (simp add: spreadTask_def)

section \<open>What the operations leave unchanged\<close>

lemma copyAndWrite_eq:
  "copyAndWrite writes r (out, s) =
     (out @ [fresh s],
      s \<lparr> taskObj := (taskObj s) (fresh s := writes (taskObj s r) (taskObj s r)),
          fresh := Suc (fresh s) \<rparr>)"
  by (simp add: copyAndWrite_def newObject_def updateObject_def Let_def)

lemma fold_copyAndWrite:
  assumes "\<forall>r \<in> set refs. r < fresh s" and "\<forall>r \<in> set out. r < fresh s"
    and "res = fold (copyAndWrite writes) refs (out, s)"
  shows "map (taskObj (snd res)) (fst res)
       = map (taskObj s) out @ map (\<lambda>r. writes (taskObj s r) (taskObj s r)) refs
     \<and> (\<forall>a < fresh s. taskObj (snd res) a = taskObj s a)
     \<and> memberObj (snd res) = memberObj s \<and> bucketObj (snd res) = bucketObj s
     \<and> fresh (snd res) = fresh s + length refs
     \<and> length (fst res) = length out + length refs
     \<and> (\<forall>x \<in> set (fst res). x \<in> set out \<or> fresh s \<le> x)"
  using assms
proof (induction refs arbitrary: out s res)
  case Nil
  then show ?case by simp
next
  case (Cons r refs)
  let ?s1 = "s \<lparr> taskObj := (taskObj s) (fresh s := writes (taskObj s r) (taskObj s r)),
                  fresh := Suc (fresh s) \<rparr>"
  let ?out1 = "out @ [fresh s]"
  have res: "res = fold (copyAndWrite writes) refs (?out1, ?s1)"
    using Cons.prems(3) by (simp add: copyAndWrite_eq)
  have a: "\<forall>x \<in> set refs. x < fresh ?s1" using Cons.prems(1) by auto
  have b: "\<forall>x \<in> set ?out1. x < fresh ?s1" using Cons.prems(2) by auto
  note ih = Cons.IH [OF a b res]
  have old: "taskObj ?s1 x = taskObj s x" if "x < fresh s" for x
    using that by simp
  have m1: "map (taskObj ?s1) ?out1 = map (taskObj s) out @ [writes (taskObj s r) (taskObj s r)]"
    using Cons.prems(2) by (auto simp: old)
  have m2: "map (\<lambda>x. writes (taskObj ?s1 x) (taskObj ?s1 x)) refs
    = map (\<lambda>x. writes (taskObj s x) (taskObj s x)) refs"
    using Cons.prems(1) by (auto simp: old)
  from ih have i1: "map (taskObj (snd res)) (fst res)
       = map (taskObj ?s1) ?out1 @ map (\<lambda>x. writes (taskObj ?s1 x) (taskObj ?s1 x)) refs"
    by (rule conjunct1)
  from ih have i2: "\<forall>x < fresh ?s1. taskObj (snd res) x = taskObj ?s1 x"
    by blast
  from ih have i3: "memberObj (snd res) = memberObj ?s1" "bucketObj (snd res) = bucketObj ?s1"
    "fresh (snd res) = fresh ?s1 + length refs"
    "length (fst res) = length ?out1 + length refs"
    by blast+
  from ih have i4: "\<forall>x \<in> set (fst res). x \<in> set ?out1 \<or> fresh ?s1 \<le> x"
    by blast
  have 1: "map (taskObj (snd res)) (fst res)
       = map (taskObj s) out @ map (\<lambda>x. writes (taskObj s x) (taskObj s x)) (r # refs)"
    unfolding i1 m1 m2 by simp
  have 2: "\<forall>x < fresh s. taskObj (snd res) x = taskObj s x"
  proof (intro allI impI)
    fix x assume x: "x < fresh s"
    then have "x < fresh ?s1" by simp
    with i2 have "taskObj (snd res) x = taskObj ?s1 x" by blast
    also have "\<dots> = taskObj s x" using x by (rule old)
    finally show "taskObj (snd res) x = taskObj s x" .
  qed
  have 3: "memberObj (snd res) = memberObj s \<and> bucketObj (snd res) = bucketObj s
     \<and> fresh (snd res) = fresh s + length (r # refs)"
    unfolding i3 by simp
  have 4: "length (fst res) = length out + length (r # refs)
     \<and> (\<forall>x \<in> set (fst res). x \<in> set out \<or> fresh s \<le> x)"
    using i4 unfolding i3 by auto
  from 1 2 3 4 show ?case by blast
qed

lemma processAssignees_writes:
  "processAssignees U memberIndex task = assigneeWrites U memberIndex (spreadTask task) (spreadTask task)"
proof -
  have a: "assignees (spreadTask task) = assignees task" "assignee (spreadTask task) = assignee task"
    by (simp_all add: spreadTask_def)
  show ?thesis
    by (simp only: processAssignees_def assigneeWrites_def a Let_def)
qed

lemma enrichTask_writes: "enrichTask mapping task = bucketWrites mapping task task"
  by (simp only: enrichTask_def bucketWrites_def)

lemma store_run:
  assumes "list_all (\<lambda>r. r < fresh s) refs"
    and "res = fold (copyAndWrite writes) refs ([], s)"
  shows "map (taskObj (snd res)) (fst res) = map (\<lambda>v. writes v v) (map (taskObj s) refs)
     \<and> (\<forall>a < fresh s. taskObj (snd res) a = taskObj s a)
     \<and> memberObj (snd res) = memberObj s \<and> bucketObj (snd res) = bucketObj s
     \<and> list_all (\<lambda>r. fresh s \<le> r) (fst res)"
proof -
  have a: "\<forall>r \<in> set refs. r < fresh s" using assms(1) by (simp add: list_all_iff)
  have b: "\<forall>r \<in> set ([]::nat list). r < fresh s" by simp
  note f = fold_copyAndWrite [OF a b assms(2)]
  from f have 1: "map (taskObj (snd res)) (fst res) = map (\<lambda>v. writes v v) (map (taskObj s) refs)"
    by (simp add: comp_def)
  from f have 2: "\<forall>a < fresh s. taskObj (snd res) a = taskObj s a" by blast
  from f have 3: "memberObj (snd res) = memberObj s" "bucketObj (snd res) = bucketObj s" by blast+
  from f have "\<forall>x \<in> set (fst res). x \<in> set ([]::nat list) \<or> fresh s \<le> x" by blast
  then have 4: "list_all (\<lambda>r. fresh s \<le> r) (fst res)" by (simp add: list_all_iff)
  from 1 2 3 4 show ?thesis by blast
qed

lemma parsed_fields_kept:
  "ParsedTask.truncate (processAssignees U index task) = task
   \<and> bucketInfo (processAssignees U index task) = None
   \<and> bucketLookupFailed (processAssignees U index task) = None"
  by (simp add: processAssignees_def Let_def spreadTask_def ParsedTask.truncate_def)

lemma other_fields_kept:
  "(enrichWith U buckets task)
     \<lparr> bucketInfo := bucketInfo task, bucketLookupFailed := bucketLookupFailed task \<rparr> = task"
  by (simp add: enrichWith_def split: option.split)

lemma bucket_fields_written:
  "(bucketLookupFailed (enrichWith U buckets task) = bucketLookupFailed task
      \<or> bucketLookupFailed (enrichWith U buckets task) = Some True)
   \<and> (bucketInfo (enrichWith U buckets task) = bucketInfo task
      \<or> (\<exists>info. bucketInfo (enrichWith U buckets task) = Some info
            \<and> bucketName task = Some (info_originalName info)))"
  by (cases "bucketName task") (simp_all add: enrichWith_def truthy_def orEmpty_def split: option.split)

text \<open>
  C10 (amended). For every list of tasks, \<open>lookupAssignees\<close> and \<open>lookupBuckets\<close> each
  return a list of the same length and order. \<open>lookupAssignees\<close> keeps every field of each
  parsed task and only adds enrichment fields (the two bucket fields stay absent).
  \<open>lookupBuckets\<close> keeps every field of each input task other than \<open>bucketInfo\<close> and
  \<open>bucketLookupFailed\<close>; of these two, \<open>bucketLookupFailed\<close> is kept or set to true, and
  \<open>bucketInfo\<close> is kept or written for the task's label, also when the input task carries
  a \<open>bucketInfo\<close> already. The operations never mutate the input task objects, the roster
  snapshot or the bucket snapshot: in the store, the returned references are new, the
  objects at them are the tasks that the operations compute, and every task object that
  existed before, every roster member and every bucket is as it was.
\<close>

theorem enrichment_frame:
  assumes "list_all (\<lambda>r. r < fresh s) parsedRefs"
    and "map (taskObj s) parsedRefs = map spreadTask tasks"
    and "list_all (\<lambda>r. r < fresh s) taskRefs"
    and "resA = lookupAssigneesStore U parsedRefs memberRefs s"
    and "resB = lookupBucketsStore U taskRefs bucketRefs s"
  shows "length (lookupAssignees U tasks members) = length tasks
     \<and> (\<forall>i < length tasks.
           ParsedTask.truncate (lookupAssignees U tasks members ! i) = tasks ! i
           \<and> bucketInfo (lookupAssignees U tasks members ! i) = None
           \<and> bucketLookupFailed (lookupAssignees U tasks members ! i) = None)
     \<and> length (lookupBuckets U ptasks buckets) = length ptasks
     \<and> (\<forall>i < length ptasks.
           (lookupBuckets U ptasks buckets ! i)
             \<lparr> bucketInfo := bucketInfo (ptasks ! i),
               bucketLookupFailed := bucketLookupFailed (ptasks ! i) \<rparr> = ptasks ! i
           \<and> (bucketLookupFailed (lookupBuckets U ptasks buckets ! i) = bucketLookupFailed (ptasks ! i)
                \<or> bucketLookupFailed (lookupBuckets U ptasks buckets ! i) = Some True)
           \<and> (bucketInfo (lookupBuckets U ptasks buckets ! i) = bucketInfo (ptasks ! i)
                \<or> (\<exists>info. bucketInfo (lookupBuckets U ptasks buckets ! i) = Some info
                      \<and> bucketName (ptasks ! i) = Some (info_originalName info))))
     \<and> map (taskObj (snd resA)) (fst resA) = lookupAssignees U tasks (map (memberObj s) memberRefs)
     \<and> (\<forall>a < fresh s. taskObj (snd resA) a = taskObj s a)
     \<and> memberObj (snd resA) = memberObj s \<and> bucketObj (snd resA) = bucketObj s
     \<and> list_all (\<lambda>r. fresh s \<le> r) (fst resA)
     \<and> map (taskObj (snd resB)) (fst resB)
         = lookupBuckets U (map (taskObj s) taskRefs) (map (bucketObj s) bucketRefs)
     \<and> (\<forall>a < fresh s. taskObj (snd resB) a = taskObj s a)
     \<and> memberObj (snd resB) = memberObj s \<and> bucketObj (snd resB) = bucketObj s
     \<and> list_all (\<lambda>r. fresh s \<le> r) (fst resB)"
proof -
  have 1: "length (lookupAssignees U tasks members) = length tasks"
    by (simp add: lookupAssignees_map)
  have 2: "\<forall>i < length tasks.
           ParsedTask.truncate (lookupAssignees U tasks members ! i) = tasks ! i
           \<and> bucketInfo (lookupAssignees U tasks members ! i) = None
           \<and> bucketLookupFailed (lookupAssignees U tasks members ! i) = None"
    by (simp add: lookupAssignees_map parsed_fields_kept)
  have 3: "length (lookupBuckets U ptasks buckets) = length ptasks"
    by (simp add: lookupBuckets_map)
  have 4: "\<forall>i < length ptasks.
           (lookupBuckets U ptasks buckets ! i)
             \<lparr> bucketInfo := bucketInfo (ptasks ! i),
               bucketLookupFailed := bucketLookupFailed (ptasks ! i) \<rparr> = ptasks ! i
           \<and> (bucketLookupFailed (lookupBuckets U ptasks buckets ! i) = bucketLookupFailed (ptasks ! i)
                \<or> bucketLookupFailed (lookupBuckets U ptasks buckets ! i) = Some True)
           \<and> (bucketInfo (lookupBuckets U ptasks buckets ! i) = bucketInfo (ptasks ! i)
                \<or> (\<exists>info. bucketInfo (lookupBuckets U ptasks buckets ! i) = Some info
                      \<and> bucketName (ptasks ! i) = Some (info_originalName info)))"
  proof (intro allI impI)
    fix i assume "i < length ptasks"
    then have e: "lookupBuckets U ptasks buckets ! i = enrichWith U buckets (ptasks ! i)"
      by (rule nth_lookupBuckets)
    show "(lookupBuckets U ptasks buckets ! i)
             \<lparr> bucketInfo := bucketInfo (ptasks ! i),
               bucketLookupFailed := bucketLookupFailed (ptasks ! i) \<rparr> = ptasks ! i
           \<and> (bucketLookupFailed (lookupBuckets U ptasks buckets ! i) = bucketLookupFailed (ptasks ! i)
                \<or> bucketLookupFailed (lookupBuckets U ptasks buckets ! i) = Some True)
           \<and> (bucketInfo (lookupBuckets U ptasks buckets ! i) = bucketInfo (ptasks ! i)
                \<or> (\<exists>info. bucketInfo (lookupBuckets U ptasks buckets ! i) = Some info
                      \<and> bucketName (ptasks ! i) = Some (info_originalName info)))"
      unfolding e
      by (intro conjI other_fields_kept bucket_fields_written [THEN conjunct1]
          bucket_fields_written [THEN conjunct2])
  qed
  let ?idx = "buildMemberIndex U (map (memberObj s) memberRefs)"
  have ra: "resA = fold (copyAndWrite (assigneeWrites U ?idx)) parsedRefs ([], s)"
    by (simp add: assms(4) lookupAssigneesStore_def Let_def)
  note sa = store_run [OF assms(1) ra]
  have "map (\<lambda>v. assigneeWrites U ?idx v v) (map (taskObj s) parsedRefs)
    = map (processAssignees U ?idx) tasks"
    by (simp only: assms(2) map_map comp_def processAssignees_writes [symmetric])
  with sa have 5: "map (taskObj (snd resA)) (fst resA)
    = lookupAssignees U tasks (map (memberObj s) memberRefs)"
    by (simp only: lookupAssignees_map)
  let ?mapping = "buildBucketMapping U (buildBucketLookup U (map (bucketObj s) bucketRefs))
    (uniqueBucketNames (map (taskObj s) taskRefs))"
  have rb: "resB = fold (copyAndWrite (bucketWrites ?mapping)) taskRefs ([], s)"
    by (simp add: assms(5) lookupBucketsStore_def Let_def)
  note sb = store_run [OF assms(3) rb]
  have "map (\<lambda>v. bucketWrites ?mapping v v) (map (taskObj s) taskRefs)
    = lookupBuckets U (map (taskObj s) taskRefs) (map (bucketObj s) bucketRefs)"
    by (simp only: lookupBuckets_def Let_def fold_push append_Nil enrichTask_writes)
  with sb have 6: "map (taskObj (snd resB)) (fst resB)
         = lookupBuckets U (map (taskObj s) taskRefs) (map (bucketObj s) bucketRefs)"
    by simp
  from sa have 7: "(\<forall>a < fresh s. taskObj (snd resA) a = taskObj s a)"
    "memberObj (snd resA) = memberObj s" "bucketObj (snd resA) = bucketObj s"
    "list_all (\<lambda>r. fresh s \<le> r) (fst resA)" by blast+
  from sb have 8: "(\<forall>a < fresh s. taskObj (snd resB) a = taskObj s a)"
    "memberObj (snd resB) = memberObj s" "bucketObj (snd resB) = bucketObj s"
    "list_all (\<lambda>r. fresh s \<le> r) (fst resB)" by blast+
  show ?thesis by (intro conjI; fact)
qed

theorem enrichment_frame_witness:
  "list_all (\<lambda>r. r < fresh exStore) [0]
   \<and> map (taskObj exStore) [0]
       = map spreadTask [exTask \<lparr> assignee := Some (ustr ''Ann Lee''),
                                  bucketName := Some (ustr ''Design'') \<rparr>]
   \<and> taskObj (snd (lookupBucketsStore latinUnicode [0] [0] exStore)) 0 = taskObj exStore 0
   \<and> memberObj (snd (lookupAssigneesStore latinUnicode [0] [0] exStore)) = memberObj exStore
   \<and> bucketObj (snd (lookupBucketsStore latinUnicode [0] [0] exStore)) = bucketObj exStore
   \<and> list_all (\<lambda>r. fresh exStore \<le> r) (fst (lookupBucketsStore latinUnicode [0] [0] exStore))"
proof -
  have 1: "list_all (\<lambda>r. r < fresh exStore) [0]" by (simp add: exStore_def)
  have 2: "map (taskObj exStore) [0]
       = map spreadTask [exTask \<lparr> assignee := Some (ustr ''Ann Lee''),
                                  bucketName := Some (ustr ''Design'') \<rparr>]"
    by (simp add: exStore_def)
  have 3: "(0::nat) < fresh exStore" by (simp add: exStore_def)
  note t = enrichment_frame [OF 1 2 1 refl refl, where U = latinUnicode and memberRefs = "[0]"
      and bucketRefs = "[0]" and members = "[]" and ptasks = "[]" and buckets = "[]"]
  from t have "\<forall>a < fresh exStore.
    taskObj (snd (lookupBucketsStore latinUnicode [0] [0] exStore)) a = taskObj exStore a"
    by blast
  with 3 have 4: "taskObj (snd (lookupBucketsStore latinUnicode [0] [0] exStore)) 0 = taskObj exStore 0"
    by blast
  from t have 5: "memberObj (snd (lookupAssigneesStore latinUnicode [0] [0] exStore)) = memberObj exStore"
    "bucketObj (snd (lookupBucketsStore latinUnicode [0] [0] exStore)) = bucketObj exStore"
    "list_all (\<lambda>r. fresh exStore \<le> r) (fst (lookupBucketsStore latinUnicode [0] [0] exStore))"
    by blast+
  from 1 2 4 5 show ?thesis by blast
qed

text \<open>
  The claim as it was stated fails: a task that carries the \<open>bucketInfo\<close> of an earlier
  fuzzy match, looked up again when a bucket of its label exists, comes back with another
  \<open>bucketInfo\<close>.
\<close>

theorem bucketInfo_replaced_counterexample:
  "bucketInfo exEnriched
     = Some \<lparr> info_id = Some (ustr ''b0''), info_name = Some (ustr ''Design Team''),
              info_originalName = ustr ''Design'', info_exactMatch = False \<rparr>
   \<and> bucketInfo (lookupBuckets latinUnicode [exEnriched] [exBucket ''b1'' ''Design''] ! 0)
     = Some \<lparr> info_id = Some (ustr ''b1''), info_name = Some (ustr ''Design''),
              info_originalName = ustr ''Design'', info_exactMatch = True \<rparr>
   \<and> bucketInfo (lookupBuckets latinUnicode [exEnriched] [exBucket ''b1'' ''Design''] ! 0)
     \<noteq> bucketInfo exEnriched"
proof -
  have r: "resolveBucket latinUnicode (buildBucketLookup latinUnicode [exBucket ''b1'' ''Design''])
      (ustr ''Design'') = Some (spreadBucket (exBucket ''b1'' ''Design'') True)"
    by (simp add: resolveBucket_def tableGet_def buildBucketLookup_def setBucket_def example_defs
        latin_defs ustr_def)
  have n: "bucketName exEnriched = Some (ustr ''Design'')"
    by (simp add: exEnriched_def spreadTask_def)
  have 1: "bucketInfo exEnriched
     = Some \<lparr> info_id = Some (ustr ''b0''), info_name = Some (ustr ''Design Team''),
              info_originalName = ustr ''Design'', info_exactMatch = False \<rparr>"
    by (simp add: exEnriched_def)
  have 2: "bucketInfo (lookupBuckets latinUnicode [exEnriched] [exBucket ''b1'' ''Design''] ! 0)
     = Some \<lparr> info_id = Some (ustr ''b1''), info_name = Some (ustr ''Design''),
              info_originalName = ustr ''Design'', info_exactMatch = True \<rparr>"
    by (simp add: lookupBuckets_map enrichWith_def n truthy_def orEmpty_def r spreadBucket_def)
      (simp add: example_defs ustr_def)
  from 1 2 show ?thesis by simp
qed

end
